(* ===== verification/Prelude.thy ===== *)
theory Prelude
  imports Main "HOL-Library.Word"
begin

text \<open>
  Shared vocabulary of the development: machine integers and printed numbers, the two
  operations of the C++ string class the pass uses (find and erase), searches in the
  instruction list of a basic block, folds that keep a preorder, and the collections of
  simplification rules that the component theories extend.

  A pointer of the C++ program is its address, a natural number; the null pointer is 0.
\<close>

named_theorems grow_intros \<open>operations that only add to the taint state\<close>
named_theorems push_intros \<open>operations that put what they taint on the worklist\<close>

type_synonym addr = nat
type_synonym u32 = "32 word"

abbreviation (input) nullptr :: addr where "nullptr \<equiv> 0"

subsection \<open>Numbers and strings as the stream operators print them\<close>

definition digit :: "nat \<Rightarrow> char" where
  "digit d = char_of (48 + d)"

fun show_nat :: "nat \<Rightarrow> string" where
  "show_nat n = (if n < 10 then [digit n] else show_nat (n div 10) @ [digit (n mod 10)])"

declare show_nat.simps [simp del]

definition show_int :: "int \<Rightarrow> string" where
  "show_int i = (if i < 0 then ''-'' @ show_nat (nat (- i)) else show_nat (nat i))"

definition on_off :: "bool \<Rightarrow> string" where
  "on_off b = (if b then ''ON'' else ''OFF'')"

text \<open>The UTF-8 bytes of the arrow in the messages.\<close>

definition arrow :: string where
  "arrow = [char_of (226::nat), char_of (134::nat), char_of (146::nat)]"

text \<open>\<open>join_with ", "\<close>: the loop that prints a comma before every element but the first.\<close>

fun join_with :: "string \<Rightarrow> string list \<Rightarrow> string" where
  "join_with sep [] = []"
| "join_with sep [x] = x"
| "join_with sep (x # y # ys) = x @ sep @ join_with sep (y # ys)"

text \<open>
  \<open>s.find(pat)\<close>: the least index at which \<open>pat\<close> starts, \<open>None\<close> for \<open>npos\<close>.
\<close>

definition starts_with :: "'a list \<Rightarrow> 'a list \<Rightarrow> bool" where
  "starts_with pat s = (take (length pat) s = pat)"

fun find_sub :: "'a list \<Rightarrow> 'a list \<Rightarrow> nat option" where
  "find_sub pat [] = (if pat = [] then Some 0 else None)"
| "find_sub pat (c # s) =
     (if starts_with pat (c # s) then Some 0 else map_option Suc (find_sub pat s))"

lemma find_sub_Some:
  "find_sub pat s = Some i \<Longrightarrow> starts_with pat (drop i s)"
  by (induction pat s arbitrary: i rule: find_sub.induct)
    (auto simp: starts_with_def split: if_splits)

lemma find_sub_least:
  "find_sub pat s = Some i \<Longrightarrow> j < i \<Longrightarrow> \<not> starts_with pat (drop j s)"
proof (induction pat s arbitrary: i j rule: find_sub.induct)
  case (1 pat)
  then show ?case by (auto split: if_splits)
next
  case (2 pat c s)
  then obtain i' where i': "find_sub pat s = Some i'" "i = Suc i'" "\<not> starts_with pat (c # s)"
    by (auto split: if_splits)
  show ?case
  proof (cases j)
    case 0
    with i' show ?thesis by simp
  next
    case (Suc j')
    with "2.prems" i' have "j' < i'" by simp
    with "2.IH"[OF i'(3) i'(1)] Suc show ?thesis by simp
  qed
qed

lemma find_sub_None: "find_sub pat s = None \<Longrightarrow> j \<le> length s \<Longrightarrow> \<not> starts_with pat (drop j s)"
proof (induction pat s arbitrary: j rule: find_sub.induct)
  case (1 pat)
  then show ?case by (auto simp: starts_with_def split: if_splits)
next
  case (2 pat c s)
  then show ?case by (cases j) (auto split: if_splits)
qed

lemma find_sub_length: "find_sub pat s = Some i \<Longrightarrow> i + length pat \<le> length s"
  by (induction pat s arbitrary: i rule: find_sub.induct)
    (auto simp: starts_with_def split: if_splits dest: arg_cong[where f = length])

text \<open>The index found is characterised by being the first match.\<close>

lemma find_sub_eqI:
  assumes "starts_with pat (drop i s)" "i \<le> length s"
    and "\<And>j. j < i \<Longrightarrow> \<not> starts_with pat (drop j s)"
  shows "find_sub pat s = Some i"
proof (cases "find_sub pat s")
  case None
  with assms find_sub_None show ?thesis by blast
next
  case (Some k)
  with assms find_sub_Some find_sub_least[OF Some, of i] show ?thesis
    by (metis linorder_neqE_nat)
qed

lemma find_SomeD: "find P xs = Some x \<Longrightarrow> x \<in> set xs \<and> P x"
  by (induction xs) (auto split: if_splits)

subsection \<open>Order inside a basic block\<close>

text \<open>
  The pass often walks a basic block with a flag \<open>found\<close> that is set at an instruction
  \<open>a\<close> and asks, at an instruction \<open>b\<close>, whether the flag is set. The walk is
  \<open>seen_at found a b is\<close>; it tests the flag after \<open>a\<close> has had its turn, so \<open>a = b\<close>
  counts.
\<close>

fun seen_at :: "bool \<Rightarrow> 'a \<Rightarrow> 'a \<Rightarrow> 'a list \<Rightarrow> bool" where
  "seen_at found a b [] = False"
| "seen_at found a b (x # xs) =
     (let found' = (if x = a then True else found)
      in if x = b \<and> found' then True else seen_at found' a b xs)"

definition not_after :: "'a list \<Rightarrow> 'a \<Rightarrow> 'a \<Rightarrow> bool" where
  "not_after xs a b = (\<exists>i j. i \<le> j \<and> j < length xs \<and> xs ! i = a \<and> xs ! j = b)"

lemma seen_at_True: "seen_at True a b xs = (b \<in> set xs)"
  by (induction xs) (auto simp: Let_def)

lemma not_after_Cons:
  "not_after (x # xs) a b = ((x = a \<and> b \<in> set (x # xs)) \<or> not_after xs a b)"
proof
  assume "not_after (x # xs) a b"
  then obtain i j where ij: "i \<le> j" "j < length (x # xs)" "(x # xs) ! i = a" "(x # xs) ! j = b"
    by (auto simp: not_after_def)
  show "(x = a \<and> b \<in> set (x # xs)) \<or> not_after xs a b"
  proof (cases i)
    case 0
    from ij(2,4) have "b \<in> set (x # xs)" by (metis nth_mem)
    with ij(3) 0 show ?thesis by simp
  next
    case (Suc i')
    with ij obtain j' where "j = Suc j'" by (cases j) auto
    with ij Suc show ?thesis by (auto simp: not_after_def)
  qed
next
  assume "(x = a \<and> b \<in> set (x # xs)) \<or> not_after xs a b"
  then show "not_after (x # xs) a b"
  proof
    assume "x = a \<and> b \<in> set (x # xs)"
    then obtain j where "j < length (x # xs)" "(x # xs) ! j = b" "x = a"
      by (metis in_set_conv_nth)
    then show ?thesis unfolding not_after_def by (intro exI[of _ 0] exI[of _ j]) auto
  next
    assume "not_after xs a b"
    then obtain i j where "i \<le> j" "j < length xs" "xs ! i = a" "xs ! j = b"
      by (auto simp: not_after_def)
    then show ?thesis unfolding not_after_def by (intro exI[of _ "Suc i"] exI[of _ "Suc j"]) auto
  qed
qed

lemma not_after_set: "not_after xs a b \<Longrightarrow> a \<in> set xs \<and> b \<in> set xs"
  by (auto simp: not_after_def)

lemma seen_at_iff: "seen_at False a b xs = not_after xs a b"
proof (induction xs)
  case Nil
  then show ?case by (simp add: not_after_def)
next
  case (Cons x xs)
  then show ?case
    using not_after_set[of xs a b]
    by (cases "x = a"; cases "x = b") (auto simp: seen_at_True not_after_Cons)
qed

text \<open>
  The kill check walks with the dual test: it stops at a \<open>b\<close> met before any \<open>a\<close>.
\<close>

fun unseen_at :: "bool \<Rightarrow> 'a \<Rightarrow> 'a \<Rightarrow> 'a list \<Rightarrow> bool" where
  "unseen_at found a b [] = False"
| "unseen_at found a b (x # xs) =
     (let found' = (if x = a then True else found)
      in if x = b \<and> \<not> found' then True else unseen_at found' a b xs)"

lemma unseen_at_True: "\<not> unseen_at True a b xs"
  by (induction xs) (auto simp: Let_def)

lemma unseen_at_iff:
  "distinct xs \<Longrightarrow> unseen_at False a b xs = (b \<in> set xs \<and> \<not> not_after xs a b)"
proof (induction xs)
  case Nil
  then show ?case by simp
next
  case (Cons x xs)
  then show ?case
    using not_after_set[of xs a b]
    by (cases "x = a"; cases "x = b") (auto simp: unseen_at_True not_after_Cons)
qed

subsection \<open>Folds that keep a preorder\<close>

text \<open>
  Every operation on the taint state only adds to it, in a preorder \<open>R\<close>. A loop of such
  operations is a fold, and stays in the preorder: the locale states the contract once.
\<close>

locale keeps_preorder =
  fixes R :: "'s \<Rightarrow> 's \<Rightarrow> bool" and f :: "'x \<Rightarrow> 's \<Rightarrow> 's"
  assumes R_refl: "R s s"
    and R_trans: "R s t \<Longrightarrow> R t u \<Longrightarrow> R s u"
    and R_step: "R s (f x s)"
begin

lemma R_fold: "R s (fold f xs s)"
  by (induction xs arbitrary: s) (auto intro: R_refl R_trans R_step)

end

text \<open>A field no step changes.\<close>

lemma fold_keeps: "(\<And>x s. g (f x s) = g s) \<Longrightarrow> g (fold f xs s) = g s"
  by (induction xs arbitrary: s) simp_all

text \<open>
  The same for a step that keeps the preorder only under an invariant of the state.
\<close>

locale keeps_invariant =
  fixes I :: "'s \<Rightarrow> bool" and ok :: "'x \<Rightarrow> bool" and f :: "'x \<Rightarrow> 's \<Rightarrow> 's"
  assumes I_step: "I s \<Longrightarrow> ok x \<Longrightarrow> I (f x s)"
begin

lemma I_fold: "I s \<Longrightarrow> list_all ok xs \<Longrightarrow> I (fold f xs s)"
  by (induction xs arbitrary: s) (auto intro: I_step)

end

text \<open>
  A step that establishes a property of its element, which later steps keep: at the end of
  the loop the property holds of every element.
\<close>

lemma fold_establishes:
  assumes "\<And>x s. Q x (f x s)" and "\<And>x y s. Q x s \<Longrightarrow> Q x (f y s)" and "x \<in> set xs"
  shows "Q x (fold f xs s)"
proof -
  have keep: "Q x s \<Longrightarrow> Q x (fold f ys s)" for ys s
    by (induction ys arbitrary: s) (simp_all add: assms(2))
  show ?thesis
    using assms(3) by (induction xs arbitrary: s) (auto intro: keep assms(1))
qed

end
