(* ===== verification/Containers.thy ===== *)
theory Containers
  imports Prelude
begin

text \<open>
  The containers of the pass. A \<open>DenseSet\<close> and a \<open>DenseMap\<close> are hash tables: they
  answer membership and lookup, they can be copied out in an order the hash function
  decides, and wherever that order could matter the pass sorts the copy first. The model
  keeps the entries in a list without duplicates, whose order plays the part of the hash
  order. The locales say what the pass relies on; in them it is proved once that a sorted
  copy is a function of the contents alone, so the output does not depend on that order.
\<close>

type_synonym 'a dset = "'a list"
type_synonym ('k, 'v) dmap = "('k \<times> 'v) list"

subsection \<open>Sets\<close>

definition ds_count :: "'a dset \<Rightarrow> 'a \<Rightarrow> bool" where
  "ds_count s x = (x \<in> set s)"

text \<open>\<open>insert(x)\<close>; its \<open>.second\<close>, "x is new", is \<open>\<not> ds_count s x\<close> before the call.\<close>

definition ds_insert :: "'a \<Rightarrow> 'a dset \<Rightarrow> 'a dset" where
  "ds_insert x s = (if x \<in> set s then s else x # s)"

lemma ds_count_iff [simp]: "ds_count s x = (x \<in> set s)"
  by (simp add: ds_count_def)

lemma set_ds_insert [simp]: "set (ds_insert x s) = insert x (set s)"
  by (auto simp: ds_insert_def)

lemma distinct_ds_insert [simp]: "distinct (ds_insert x s) = distinct s"
  by (auto simp: ds_insert_def)

lemma length_ds_insert:
  "length (ds_insert x s) = (if x \<in> set s then length s else Suc (length s))"
  by (simp add: ds_insert_def)

locale dense_set =
  fixes empty :: "'s" and add :: "'a::linorder \<Rightarrow> 's \<Rightarrow> 's"
    and count :: "'s \<Rightarrow> 'a \<Rightarrow> bool" and elems :: "'s \<Rightarrow> 'a list" and valid :: "'s \<Rightarrow> bool"
  assumes valid_empty: "valid empty" and elems_empty: "elems empty = []"
    and valid_add: "valid s \<Longrightarrow> valid (add x s)"
    and count_elems: "valid s \<Longrightarrow> count s x = (x \<in> set (elems s))"
    and elems_add: "valid s \<Longrightarrow> set (elems (add x s)) = insert x (set (elems s))"
    and elems_distinct: "valid s \<Longrightarrow> distinct (elems s)"
begin

lemma count_add: "valid s \<Longrightarrow> count (add x s) y = (x = y \<or> count s y)"
  using valid_add by (auto simp: count_elems elems_add)

lemma sorted_copy_canonical:
  assumes "valid s" "valid t" and "\<And>x. count s x = count t x"
  shows "sort (elems s) = sort (elems t)"
proof -
  from assms have "set (elems s) = set (elems t)"
    by (auto simp: count_elems)
  then show ?thesis
    using elems_distinct assms(1,2) by (intro sorted_distinct_set_unique) auto
qed

lemma size_add: "valid s \<Longrightarrow> length (elems (add x s)) = length (elems s) + (if count s x then 0 else 1)"
proof -
  assume v: "valid s"
  have "length (elems (add x s)) = card (insert x (set (elems s)))"
    using distinct_card[OF elems_distinct[OF valid_add[OF v]], of x] elems_add[OF v] by simp
  then show ?thesis
    using distinct_card[OF elems_distinct[OF v]] v by (simp add: count_elems card_insert_if)
qed

end

interpretation list_set: dense_set "[]" ds_insert ds_count "\<lambda>s. s" distinct
  by unfold_locales auto

subsection \<open>Maps\<close>

definition dm_count :: "('k, 'v) dmap \<Rightarrow> 'k \<Rightarrow> bool" where
  "dm_count m k = (map_of m k \<noteq> None)"

text \<open>\<open>m[k]\<close> as a value: the value type's default when the key is missing.\<close>

definition dm_get :: "'v \<Rightarrow> ('k, 'v) dmap \<Rightarrow> 'k \<Rightarrow> 'v" where
  "dm_get d m k = (case map_of m k of None \<Rightarrow> d | Some v \<Rightarrow> v)"

text \<open>\<open>m[k] = v\<close>.\<close>

fun dm_set :: "'k \<Rightarrow> 'v \<Rightarrow> ('k, 'v) dmap \<Rightarrow> ('k, 'v) dmap" where
  "dm_set k v [] = [(k, v)]"
| "dm_set k v ((k', w) # m) = (if k' = k then (k, v) # m else (k', w) # dm_set k v m)"

lemma map_of_dm_set [simp]: "map_of (dm_set k v m) = (map_of m)(k \<mapsto> v)"
  by (induction k v m rule: dm_set.induct) auto

lemma keys_dm_set: "set (map fst (dm_set k v m)) = insert k (set (map fst m))"
  by (induction k v m rule: dm_set.induct) auto

lemma distinct_dm_set: "distinct (map fst m) \<Longrightarrow> distinct (map fst (dm_set k v m))"
proof (induction k v m rule: dm_set.induct)
  case (2 k v k' w m)
  have "k' \<notin> fst ` set (dm_set k v m)" if "k' \<noteq> k"
    using keys_dm_set[of k v m] that "2.prems" by auto
  with 2 show ?case by auto
qed simp

lemma dm_count_iff [simp]: "dm_count m k = (k \<in> dom (map_of m))"
  by (auto simp: dm_count_def)

lemma dm_get_dm_set [simp]: "dm_get d (dm_set k v m) k' = (if k' = k then v else dm_get d m k')"
  by (simp add: dm_get_def)

lemma dm_get_missing: "k \<notin> dom (map_of m) \<Longrightarrow> dm_get d m k = d"
  by (auto simp: dm_get_def split: option.splits)

lemma length_dm_set: "length (dm_set k v m) = (if k \<in> fst ` set m then length m else Suc (length m))"
  by (induction k v m rule: dm_set.induct) auto

locale dense_map =
  fixes empty :: "'m" and update :: "'k::linorder \<Rightarrow> 'v \<Rightarrow> 'm \<Rightarrow> 'm"
    and lookup :: "'m \<Rightarrow> 'k \<Rightarrow> 'v option" and entries :: "'m \<Rightarrow> ('k \<times> 'v) list"
    and valid :: "'m \<Rightarrow> bool"
  assumes map_valid_empty: "valid empty" and entries_empty: "entries empty = []"
    and map_valid_update: "valid m \<Longrightarrow> valid (update k v m)"
    and lookup_update: "valid m \<Longrightarrow> lookup (update k v m) = (lookup m)(k \<mapsto> v)"
    and entries_lookup: "valid m \<Longrightarrow> lookup m = map_of (entries m)"
    and entries_distinct: "valid m \<Longrightarrow> distinct (map fst (entries m))"
begin

lemma lookup_same: "valid m \<Longrightarrow> lookup (update k v m) k = Some v"
  by (simp add: lookup_update)

lemma lookup_other: "valid m \<Longrightarrow> k' \<noteq> k \<Longrightarrow> lookup (update k v m) k' = lookup m k'"
  by (simp add: lookup_update)

lemma sorted_entries_canonical:
  assumes "valid m" "valid n" and eq: "lookup m = lookup n"
  shows "sort_key fst (entries m) = sort_key fst (entries n)"
proof -
  let ?a = "sort_key fst (entries m)" and ?b = "sort_key fst (entries n)"
  have d: "distinct (map fst (entries m))" "distinct (map fst (entries n))"
    using assms(1,2) entries_distinct by auto
  have "set (entries m) = set (entries n)"
    using eq assms(1,2) d by (metis entries_lookup map_of_inject_set)
  then have s: "set ?a = set ?b" by simp
  have "distinct (map fst ?a)" "distinct (map fst ?b)"
    using d by (simp_all add: distinct_map distinct_sort inj_on_def)
  then have "map fst ?a = map fst ?b"
    using s by (intro sorted_distinct_set_unique) (auto simp del: set_sort)
  moreover have "inj_on fst (set ?a \<union> set ?b)"
    using s \<open>distinct (map fst ?a)\<close> by (simp add: distinct_map)
  ultimately show ?thesis by (rule map_inj_on)
qed

end

interpretation list_map: dense_map "[]" dm_set map_of "\<lambda>m. m" "\<lambda>m. distinct (map fst m)"
  by unfold_locales (simp_all add: distinct_dm_set del: map_map)

end
