(* ===== verification/LLVM_IR.thy ===== *)
theory LLVM_IR
  imports Containers
begin

text \<open>
  The module under analysis. LLVM is a library the pass only queries, so the model takes a
  snapshot of its answers: for every value its class (the \<open>dyn_cast\<close> the pass tries), the
  result of \<open>stripPointerCasts\<close>, whether its type is a pointer, its users in use-list order
  and its printed form; for every instruction what the accessors of its class return, with
  \<open>getFunction\<close>, \<open>getParent\<close> and the debug location; for the module its functions, blocks
  and instructions in program order. Nothing is assumed of the snapshot in the definitions;
  where a result needs a fact about it, the fact is a hypothesis.

  A value that is not in the snapshot has no users, no class the pass asks for, and strips
  to itself.
\<close>

record debug_loc =
  dl_file :: string
  dl_line :: nat
  dl_col :: nat

text \<open>
  The instruction classes the pass distinguishes, with the accessors it calls. The
  constructor arguments are: value and pointer operand of a store; pointer operand of a
  load; \<open>getCalledFunction\<close> (null for an indirect call), \<open>getCalledOperand\<close> and the
  arguments of a call; the returned value (null for \<open>ret void\<close>); pointer operand, source
  element type and indices of a \<open>getelementptr\<close>; whether an \<open>alloca\<close> is of struct type;
  the incoming values of a phi with the names of their blocks.
\<close>

datatype iop =
    Store addr addr
  | Load addr
  | Call addr addr "addr list"
  | Ret addr
  | GEP addr nat "addr list"
  | Alloca bool
  | Phi "(addr \<times> string) list"
  | OtherOp

record inst =
  opcode :: string
  iop :: iop
  operands :: "addr list"
  ifunc :: addr
  iblock :: addr
  dloc :: "debug_loc option"

datatype vkind =
    VArgument addr nat        \<comment> \<open>\<open>getParent\<close>, \<open>getArgNo\<close>\<close>
  | VFunction
  | VGlobalVariable string    \<comment> \<open>\<open>getName\<close>\<close>
  | VConstantInt int          \<comment> \<open>\<open>getSExtValue\<close>\<close>
  | VInstruction inst
  | VOther

record vinfo =
  kind :: vkind
  stripped :: addr
  is_pointer :: bool
  users :: "addr list"
  printed :: string

record block =
  baddr :: addr
  binsts :: "addr list"

record func =
  faddr :: addr
  fname :: string
  fdecl :: bool
  fargs :: "addr list"
  fblocks :: "block list"

record llmodule =
  vals :: "(addr \<times> vinfo) list"
  funcs :: "func list"

subsection \<open>Queries\<close>

definition no_vinfo :: "addr \<Rightarrow> vinfo" where
  "no_vinfo a = \<lparr>kind = VOther, stripped = a, is_pointer = False, users = [], printed = []\<rparr>"

definition vinfo_of :: "llmodule \<Rightarrow> addr \<Rightarrow> vinfo" where
  "vinfo_of m a = (case map_of (vals m) a of None \<Rightarrow> no_vinfo a | Some v \<Rightarrow> v)"

definition kind_of :: "llmodule \<Rightarrow> addr \<Rightarrow> vkind" where
  "kind_of m a = kind (vinfo_of m a)"

definition strip :: "llmodule \<Rightarrow> addr \<Rightarrow> addr" where
  "strip m a = stripped (vinfo_of m a)"

definition users_of :: "llmodule \<Rightarrow> addr \<Rightarrow> addr list" where
  "users_of m a = users (vinfo_of m a)"

definition inst_of :: "llmodule \<Rightarrow> addr \<Rightarrow> inst option" where
  "inst_of m a = (case kind_of m a of VInstruction i \<Rightarrow> Some i | _ \<Rightarrow> None)"

definition iop_of :: "llmodule \<Rightarrow> addr \<Rightarrow> iop" where
  "iop_of m a = (case inst_of m a of Some i \<Rightarrow> iop i | None \<Rightarrow> OtherOp)"

definition func_of_inst :: "llmodule \<Rightarrow> addr \<Rightarrow> addr" where
  "func_of_inst m a = (case inst_of m a of Some i \<Rightarrow> ifunc i | None \<Rightarrow> nullptr)"

definition block_of_inst :: "llmodule \<Rightarrow> addr \<Rightarrow> addr" where
  "block_of_inst m a = (case inst_of m a of Some i \<Rightarrow> iblock i | None \<Rightarrow> nullptr)"

definition as_store :: "llmodule \<Rightarrow> addr \<Rightarrow> (addr \<times> addr) option" where
  "as_store m a = (case iop_of m a of Store v p \<Rightarrow> Some (v, p) | _ \<Rightarrow> None)"

definition as_load :: "llmodule \<Rightarrow> addr \<Rightarrow> addr option" where
  "as_load m a = (case iop_of m a of Load p \<Rightarrow> Some p | _ \<Rightarrow> None)"

definition as_call :: "llmodule \<Rightarrow> addr \<Rightarrow> (addr \<times> addr \<times> addr list) option" where
  "as_call m a = (case iop_of m a of Call f c as \<Rightarrow> Some (f, c, as) | _ \<Rightarrow> None)"

definition as_ret :: "llmodule \<Rightarrow> addr \<Rightarrow> addr option" where
  "as_ret m a = (case iop_of m a of Ret v \<Rightarrow> Some v | _ \<Rightarrow> None)"

definition as_gep :: "llmodule \<Rightarrow> addr \<Rightarrow> (addr \<times> nat \<times> addr list) option" where
  "as_gep m a = (case iop_of m a of GEP p t is \<Rightarrow> Some (p, t, is) | _ \<Rightarrow> None)"

definition as_alloca :: "llmodule \<Rightarrow> addr \<Rightarrow> bool option" where
  "as_alloca m a = (case iop_of m a of Alloca s \<Rightarrow> Some s | _ \<Rightarrow> None)"

definition as_phi :: "llmodule \<Rightarrow> addr \<Rightarrow> (addr \<times> string) list option" where
  "as_phi m a = (case iop_of m a of Phi inc \<Rightarrow> Some inc | _ \<Rightarrow> None)"

definition as_const_int :: "llmodule \<Rightarrow> addr \<Rightarrow> int option" where
  "as_const_int m a = (case kind_of m a of VConstantInt c \<Rightarrow> Some c | _ \<Rightarrow> None)"

definition as_global :: "llmodule \<Rightarrow> addr \<Rightarrow> string option" where
  "as_global m a = (case kind_of m a of VGlobalVariable g \<Rightarrow> Some g | _ \<Rightarrow> None)"

definition is_function :: "llmodule \<Rightarrow> addr \<Rightarrow> bool" where
  "is_function m a = (kind_of m a = VFunction)"

definition is_inst :: "llmodule \<Rightarrow> addr \<Rightarrow> bool" where
  "is_inst m a = (inst_of m a \<noteq> None)"

text \<open>\<open>isa<Argument>(V) \<and> V->getType()->isPointerTy()\<close>\<close>

definition is_ptr_arg :: "llmodule \<Rightarrow> addr \<Rightarrow> bool" where
  "is_ptr_arg m a =
     ((case kind_of m a of VArgument f n \<Rightarrow> True | _ \<Rightarrow> False) \<and> is_pointer (vinfo_of m a))"

definition arg_no :: "llmodule \<Rightarrow> addr \<Rightarrow> nat" where
  "arg_no m a = (case kind_of m a of VArgument f n \<Rightarrow> n | _ \<Rightarrow> 0)"

text \<open>The function a value belongs to: of an instruction or of an argument, else null.\<close>

definition func_of_value :: "llmodule \<Rightarrow> addr \<Rightarrow> addr" where
  "func_of_value m a =
     (case kind_of m a of VInstruction i \<Rightarrow> ifunc i | VArgument f n \<Rightarrow> f | _ \<Rightarrow> nullptr)"

subsection \<open>Functions and blocks\<close>

definition func_of :: "llmodule \<Rightarrow> addr \<Rightarrow> func option" where
  "func_of m f = find (\<lambda>g. faddr g = f) (funcs m)"

definition fun_name :: "llmodule \<Rightarrow> addr \<Rightarrow> string" where
  "fun_name m f = (case func_of m f of Some g \<Rightarrow> fname g | None \<Rightarrow> [])"

definition is_declaration :: "llmodule \<Rightarrow> addr \<Rightarrow> bool" where
  "is_declaration m f = (case func_of m f of Some g \<Rightarrow> fdecl g | None \<Rightarrow> True)"

definition args_of :: "llmodule \<Rightarrow> addr \<Rightarrow> addr list" where
  "args_of m f = (case func_of m f of Some g \<Rightarrow> fargs g | None \<Rightarrow> [])"

definition func_insts :: "func \<Rightarrow> addr list" where
  "func_insts f = concat (map binsts (fblocks f))"

text \<open>
  The loop \<open>for F in M, skip declarations, for BB in F, for I in BB\<close> visits these.
\<close>

definition all_insts :: "llmodule \<Rightarrow> addr list" where
  "all_insts m = concat (map func_insts (filter (\<lambda>f. \<not> fdecl f) (funcs m)))"

definition block_insts :: "llmodule \<Rightarrow> addr \<Rightarrow> addr list" where
  "block_insts m b =
     (case find (\<lambda>bb. baddr bb = b) (concat (map fblocks (funcs m)))
      of Some bb \<Rightarrow> binsts bb | None \<Rightarrow> [])"

lemmas ir_simps =
  vinfo_of_def no_vinfo_def kind_of_def strip_def users_of_def inst_of_def iop_of_def
  func_of_inst_def block_of_inst_def as_store_def as_load_def as_call_def as_ret_def
  as_gep_def as_alloca_def as_phi_def as_const_int_def as_global_def is_function_def
  is_inst_def is_ptr_arg_def arg_no_def func_of_value_def func_of_def fun_name_def
  is_declaration_def args_of_def func_insts_def all_insts_def block_insts_def

subsection \<open>The values of a module\<close>

text \<open>
  The loops of the pass end because every value they add is one of finitely many that the
  module mentions.
\<close>

fun op_mentions :: "iop \<Rightarrow> addr list" where
  "op_mentions (Store v p) = [v, p]"
| "op_mentions (Load p) = [p]"
| "op_mentions (Call f c as) = f # c # as"
| "op_mentions (Ret v) = [v]"
| "op_mentions (GEP p t is) = p # is"
| "op_mentions (Alloca s) = []"
| "op_mentions (Phi inc) = map fst inc"
| "op_mentions OtherOp = []"

fun mentioned :: "vkind \<Rightarrow> addr list" where
  "mentioned (VInstruction i) = op_mentions (iop i)"
| "mentioned k = []"

definition universe_list :: "llmodule \<Rightarrow> addr list" where
  "universe_list m =
     concat (map (\<lambda>(a, v). a # stripped v # users v @ mentioned (kind v)) (vals m))
     @ concat (map (\<lambda>f. fargs f @ func_insts f) (funcs m))"

definition universe :: "llmodule \<Rightarrow> addr set" where
  "universe m = set (universe_list m)"

lemma finite_universe [simp]: "finite (universe m)"
  by (simp add: universe_def)

lemma finite_universe_diff [simp]: "finite (universe m - X)"
  by simp

lemma vals_universe:
  assumes "(a, v) \<in> set (vals m)"
  shows "a \<in> universe m" "stripped v \<in> universe m" "set (users v) \<subseteq> universe m"
    "set (mentioned (kind v)) \<subseteq> universe m"
  using assms by (force simp: universe_def universe_list_def)+

lemma vinfo_cases:
  obtains "vinfo_of m a = no_vinfo a" | "(a, vinfo_of m a) \<in> set (vals m)"
  by (cases "map_of (vals m) a") (auto simp: vinfo_of_def dest: map_of_SomeD)

lemma strip_universe [simp]: "a \<in> universe m \<Longrightarrow> strip m a \<in> universe m"
  by (cases rule: vinfo_cases[of m a]) (auto simp: strip_def no_vinfo_def dest: vals_universe)

lemma users_universe: "u \<in> set (users_of m a) \<Longrightarrow> u \<in> universe m"
  by (cases rule: vinfo_cases[of m a]) (auto simp: users_of_def no_vinfo_def dest: vals_universe)

lemma mentioned_universe: "set (mentioned (kind_of m a)) \<subseteq> universe m"
  by (cases rule: vinfo_cases[of m a])
    (simp_all add: kind_of_def no_vinfo_def vals_universe(4))

lemma kind_universe: "kind_of m a \<noteq> VOther \<Longrightarrow> a \<in> universe m"
  by (cases rule: vinfo_cases[of m a]) (auto simp: kind_of_def no_vinfo_def dest: vals_universe)

lemma inst_universe: "inst_of m a = Some i \<Longrightarrow> a \<in> universe m"
  by (rule kind_universe) (auto simp: inst_of_def)

lemma iop_universe: "iop_of m a \<noteq> OtherOp \<Longrightarrow> a \<in> universe m"
  by (auto simp: iop_of_def split: option.splits intro: inst_universe)

lemma op_mentions_universe: "set (op_mentions (iop_of m a)) \<subseteq> universe m"
  using mentioned_universe[of m a] by (auto simp: iop_of_def inst_of_def split: vkind.splits)

lemma as_op_iff:
  "as_store m a = Some (v, p) \<longleftrightarrow> iop_of m a = Store v p"
  "as_load m a = Some p \<longleftrightarrow> iop_of m a = Load p"
  "as_call m a = Some (f, c, as) \<longleftrightarrow> iop_of m a = Call f c as"
  "as_ret m a = Some v \<longleftrightarrow> iop_of m a = Ret v"
  "as_gep m a = Some (p, t, is) \<longleftrightarrow> iop_of m a = GEP p t is"
  "as_alloca m a = Some s \<longleftrightarrow> iop_of m a = Alloca s"
  "as_phi m a = Some inc \<longleftrightarrow> iop_of m a = Phi inc"
  by (cases "iop_of m a"; simp add: as_store_def as_load_def as_call_def as_ret_def as_gep_def
      as_alloca_def as_phi_def)+

lemma op_universe:
  assumes "iop_of m a = op" "op \<noteq> OtherOp"
  shows "a \<in> universe m" "set (op_mentions op) \<subseteq> universe m"
  using assms iop_universe[of m a] op_mentions_universe[of m a] by auto

lemma op_is_inst: "iop_of m a \<noteq> OtherOp \<Longrightarrow> is_inst m a"
  by (auto simp: is_inst_def iop_of_def split: option.splits)

lemma store_is_inst: "as_store m a = Some x \<Longrightarrow> is_inst m a"
  and call_is_inst: "as_call m a = Some y \<Longrightarrow> is_inst m a"
  by (cases x; cases y; rule op_is_inst; simp add: as_op_iff)+

lemma store_universe:
  "as_store m a = Some (v, p) \<Longrightarrow> a \<in> universe m \<and> v \<in> universe m \<and> p \<in> universe m"
  using op_universe[of m a "Store v p"] by (simp add: as_op_iff)

lemma load_universe: "as_load m a = Some p \<Longrightarrow> a \<in> universe m \<and> p \<in> universe m"
  using op_universe[of m a "Load p"] by (simp add: as_op_iff)

lemma gep_universe: "as_gep m a = Some (p, t, is) \<Longrightarrow> a \<in> universe m \<and> p \<in> universe m"
  using op_universe[of m a "GEP p t is"] by (simp add: as_op_iff)

lemma call_universe: "as_call m a = Some (f, c, as) \<Longrightarrow> a \<in> universe m \<and> set as \<subseteq> universe m"
  using op_universe[of m a "Call f c as"] by (simp add: as_op_iff)

lemma alloca_universe: "as_alloca m a = Some s \<Longrightarrow> a \<in> universe m"
  using op_universe[of m a "Alloca s"] by (simp add: as_op_iff)

lemma all_insts_universe: "set (all_insts m) \<subseteq> universe m"
  by (auto simp: all_insts_def universe_def universe_list_def)

lemma func_of_SomeD: "func_of m f = Some g \<Longrightarrow> g \<in> set (funcs m) \<and> faddr g = f"
  by (auto simp: func_of_def find_Some_iff)

lemma args_universe: "set (args_of m f) \<subseteq> universe m"
  by (cases "func_of m f")
    (auto simp: args_of_def universe_def universe_list_def dest!: func_of_SomeD)

lemma nth_args_universe: "i < length (args_of m f) \<Longrightarrow> args_of m f ! i \<in> universe m"
  using args_universe[of m f] nth_mem by blast

lemmas universe_intros =
  strip_universe users_universe inst_universe nth_args_universe alloca_universe

end
