(* ===== verification/Example.thy ===== *)
theory Example
  imports LLVM_IR
begin

text \<open>
  Five small modules on which the properties are exercised.

  \<open>ex_returns\<close>: the constant is stored to a local variable of \<open>f\<close>, loaded, and returned to
  \<open>main\<close>.

  \<open>ex_params\<close>: \<open>f\<close> stores the constant through its pointer parameter; \<open>main\<close> passes the
  address of a local variable and loads it afterwards.
\<close>

definition ex_inst :: "addr \<Rightarrow> addr \<Rightarrow> string \<Rightarrow> iop \<Rightarrow> addr list \<Rightarrow> vkind" where
  "ex_inst f b op x ops = VInstruction \<lparr>opcode = op, iop = x, operands = ops, ifunc = f, iblock = b,
     dloc = None\<rparr>"

definition ex_val :: "addr \<Rightarrow> vkind \<Rightarrow> bool \<Rightarrow> addr list \<Rightarrow> addr \<times> vinfo" where
  "ex_val a k ptr us = (a, \<lparr>kind = k, stripped = a, is_pointer = ptr, users = us, printed = []\<rparr>)"

definition ex_returns :: llmodule where
  "ex_returns = \<lparr>vals =
     [ex_val 1 VFunction True [21],
      ex_val 2 VFunction True [],
      ex_val 3 (VConstantInt 36) False [12],
      ex_val 11 (ex_inst 1 10 ''alloca'' (Alloca False) []) True [12, 13],
      ex_val 12 (ex_inst 1 10 ''store'' (Store 3 11) [3, 11]) False [],
      ex_val 13 (ex_inst 1 10 ''load'' (Load 11) [11]) False [14],
      ex_val 14 (ex_inst 1 10 ''ret'' (Ret 13) [13]) False [],
      ex_val 21 (ex_inst 2 20 ''call'' (Call 1 1 []) [1]) False [22],
      ex_val 22 (ex_inst 2 20 ''ret'' (Ret 21) [21]) False []],
     funcs = [\<lparr>faddr = 1, fname = ''f'', fdecl = False, fargs = [],
                fblocks = [\<lparr>baddr = 10, binsts = [11, 12, 13, 14]\<rparr>]\<rparr>,
              \<lparr>faddr = 2, fname = ''g'', fdecl = False, fargs = [],
                fblocks = [\<lparr>baddr = 20, binsts = [21, 22]\<rparr>]\<rparr>]\<rparr>"

definition ex_params :: llmodule where
  "ex_params = \<lparr>vals =
     [ex_val 1 VFunction True [22],
      ex_val 2 VFunction True [],
      ex_val 3 (VConstantInt 36) False [11],
      ex_val 5 (VArgument 1 0) True [11],
      ex_val 11 (ex_inst 1 10 ''store'' (Store 3 5) [3, 5]) False [],
      ex_val 21 (ex_inst 2 20 ''alloca'' (Alloca False) []) True [22, 23],
      ex_val 22 (ex_inst 2 20 ''call'' (Call 1 1 [21]) [21, 1]) False [],
      ex_val 23 (ex_inst 2 20 ''load'' (Load 21) [21]) False [24],
      ex_val 24 (ex_inst 2 20 ''ret'' (Ret 23) [23]) False []],
     funcs = [\<lparr>faddr = 1, fname = ''f'', fdecl = False, fargs = [5],
                fblocks = [\<lparr>baddr = 10, binsts = [11]\<rparr>]\<rparr>,
              \<lparr>faddr = 2, fname = ''g'', fdecl = False, fargs = [],
                fblocks = [\<lparr>baddr = 20, binsts = [21, 22, 23, 24]\<rparr>]\<rparr>]\<rparr>"

text \<open>
  \<open>ex_calls\<close>: \<open>g\<close> passes the constant to \<open>f\<close>, which adds to its parameter, stores the sum to a
  global variable and to a local one, and passes it twice to \<open>h\<close>.
\<close>

definition ex_calls :: llmodule where
  "ex_calls = \<lparr>vals =
     [ex_val 1 VFunction True [22],
      ex_val 2 VFunction True [],
      ex_val 4 VFunction True [17],
      ex_val 3 (VConstantInt 7) False [22],
      ex_val 5 (VArgument 1 0) False [13],
      ex_val 6 (VGlobalVariable ''G'') True [15],
      ex_val 7 (VArgument 4 0) False [],
      ex_val 8 (VArgument 4 1) False [],
      ex_val 12 (ex_inst 1 10 ''alloca'' (Alloca False) []) True [16, 18],
      ex_val 13 (ex_inst 1 10 ''add'' OtherOp [5, 5]) False [14],
      ex_val 14 (ex_inst 1 10 ''mul'' OtherOp [13]) False [15, 16, 17],
      ex_val 15 (ex_inst 1 10 ''store'' (Store 14 6) [14, 6]) False [],
      ex_val 16 (ex_inst 1 10 ''store'' (Store 14 12) [14, 12]) False [],
      ex_val 17 (ex_inst 1 10 ''call'' (Call 4 4 [14, 14]) [14, 14, 4]) False [],
      ex_val 18 (ex_inst 1 10 ''load'' (Load 12) [12]) False [],
      ex_val 19 (ex_inst 1 10 ''ret'' (Ret 0) []) False [],
      ex_val 22 (ex_inst 2 20 ''call'' (Call 1 1 [3]) [3, 1]) False [],
      ex_val 31 (ex_inst 4 30 ''ret'' (Ret 0) []) False []],
     funcs = [\<lparr>faddr = 1, fname = ''f'', fdecl = False, fargs = [5],
                fblocks = [\<lparr>baddr = 10, binsts = [12, 13, 14, 15, 16, 17, 18, 19]\<rparr>]\<rparr>,
              \<lparr>faddr = 2, fname = ''g'', fdecl = False, fargs = [],
                fblocks = [\<lparr>baddr = 20, binsts = [22]\<rparr>]\<rparr>,
              \<lparr>faddr = 4, fname = ''h'', fdecl = False, fargs = [7, 8],
                fblocks = [\<lparr>baddr = 30, binsts = [31]\<rparr>]\<rparr>]\<rparr>"

text \<open>
  \<open>ex_indirect\<close>: \<open>f\<close> stores the address of \<open>h\<close> to a local variable, loads it and calls it with
  the result of an addition of the constant.
\<close>

definition ex_indirect :: llmodule where
  "ex_indirect = \<lparr>vals =
     [ex_val 1 VFunction True [],
      ex_val 4 VFunction True [13],
      ex_val 3 (VConstantInt 36) False [14],
      ex_val 7 (VArgument 4 0) False [31],
      ex_val 12 (ex_inst 1 10 ''alloca'' (Alloca False) []) True [13, 15],
      ex_val 13 (ex_inst 1 10 ''store'' (Store 4 12) [4, 12]) False [],
      ex_val 14 (ex_inst 1 10 ''add'' OtherOp [3, 3]) False [16],
      ex_val 15 (ex_inst 1 10 ''load'' (Load 12) [12]) True [16],
      ex_val 16 (ex_inst 1 10 ''call'' (Call 0 15 [14]) [14, 15]) False [],
      ex_val 17 (ex_inst 1 10 ''ret'' (Ret 0) []) False [],
      ex_val 31 (ex_inst 4 30 ''ret'' (Ret 7) [7]) False []],
     funcs = [\<lparr>faddr = 1, fname = ''f'', fdecl = False, fargs = [],
                fblocks = [\<lparr>baddr = 10, binsts = [12, 13, 14, 15, 16, 17]\<rparr>]\<rparr>,
              \<lparr>faddr = 4, fname = ''h'', fdecl = False, fargs = [7],
                fblocks = [\<lparr>baddr = 30, binsts = [31]\<rparr>]\<rparr>]\<rparr>"

text \<open>
  \<open>ex_shared\<close>: \<open>f\<close> stores the constant to a constant expression, the address of a field of a
  global variable, and \<open>g\<close>, which nothing calls, loads it.
\<close>

definition ex_shared :: llmodule where
  "ex_shared = \<lparr>vals =
     [ex_val 1 VFunction True [],
      ex_val 2 VFunction True [],
      ex_val 3 (VConstantInt 36) False [12],
      ex_val 50 VOther True [12, 22],
      ex_val 12 (ex_inst 1 10 ''store'' (Store 3 50) [3, 50]) False [],
      ex_val 22 (ex_inst 2 20 ''load'' (Load 50) [50]) False [],
      ex_val 23 (ex_inst 2 20 ''ret'' (Ret 0) []) False []],
     funcs = [\<lparr>faddr = 1, fname = ''f'', fdecl = False, fargs = [],
                fblocks = [\<lparr>baddr = 10, binsts = [12]\<rparr>]\<rparr>,
              \<lparr>faddr = 2, fname = ''g'', fdecl = False, fargs = [],
                fblocks = [\<lparr>baddr = 20, binsts = [22, 23]\<rparr>]\<rparr>]\<rparr>"

end
