(* ===== verification/Printing.thy ===== *)
theory Printing
  imports Example
begin

text \<open>
  The parameters of the pass and the helpers that turn values into text: \<open>getValueName\<close>,
  \<open>getDebugLoc\<close> with its search for an approximate location, \<open>getLevel\<close>,
  \<open>getFuncLevel\<close> and \<open>getFuncLevelForValue\<close>. The lemmas give each of them a
  closed-form specification.
\<close>

record pass_params =
  FunctionName :: string
  TargetOpcode :: string
  ConstantToTrack :: int
  Verbose :: bool
  InterprocMode :: bool
  IndirectCallMode :: bool
  UpwardInterprocMode :: bool
  OccurrenceIndex :: u32
  ApproxDebugInfo :: bool

text \<open>The defaults of the registration callback.\<close>

definition default_params :: pass_params where
  "default_params = \<lparr>FunctionName = ''gss_fill_context'', TargetOpcode = '''',
     ConstantToTrack = 3600, Verbose = False, InterprocMode = False, IndirectCallMode = False,
     UpwardInterprocMode = False, OccurrenceIndex = 1, ApproxDebugInfo = False\<rparr>"

text \<open>The configuration of the examples: the constant 36 in \<open>f\<close>, both interprocedural modes.\<close>

definition ex_cfg :: pass_params where
  "ex_cfg = default_params\<lparr>FunctionName := ''f'', ConstantToTrack := 36, InterprocMode := True,
     UpwardInterprocMode := True\<rparr>"

definition ex_calls_cfg :: pass_params where
  "ex_calls_cfg = ex_cfg\<lparr>FunctionName := ''g'', ConstantToTrack := 7\<rparr>"

definition ex_indirect_cfg :: pass_params where
  "ex_indirect_cfg = ex_cfg\<lparr>IndirectCallMode := True\<rparr>"

definition ex_local_cfg :: pass_params where
  "ex_local_cfg = ex_cfg\<lparr>InterprocMode := False, UpwardInterprocMode := False\<rparr>"

definition ex_forward_cfg :: pass_params where
  "ex_forward_cfg = ex_calls_cfg\<lparr>UpwardInterprocMode := False, OccurrenceIndex := 0\<rparr>"

subsection \<open>getValueName\<close>

definition dbg_marker :: string where
  "dbg_marker = '' !dbg !''"

text \<open>
  The edit of the printed text: find the marker, step back over a separator, erase up to
  the next newline or to the end.
\<close>

definition erase_dbg :: "string \<Rightarrow> string" where
  "erase_dbg s =
     (case find_sub dbg_marker s of
        None \<Rightarrow> s
      | Some pos \<Rightarrow>
          (let start = (if 2 \<le> pos \<and> s ! (pos - 2) = CHR '','' \<and> s ! (pos - 1) = CHR '' ''
                        then pos - 2 else pos)
           in case find_sub [CHR 0x0A] (drop pos s) of
                None \<Rightarrow> take start s
              | Some n \<Rightarrow> take start s @ drop (pos + n) s))"

definition getValueName :: "llmodule \<Rightarrow> addr \<Rightarrow> string" where
  "getValueName m V = (if V = nullptr then ''N/A'' else erase_dbg (printed (vinfo_of m V)))"

lemma erase_dbg_plain: "find_sub dbg_marker s = None \<Longrightarrow> erase_dbg s = s"
  by (simp add: erase_dbg_def)

text \<open>
  An instruction is printed with \<open>", !dbg !N"\<close> at its end. The marker found starts with the
  space after the comma, so the test for \<open>", "\<close> reads one position too far left and the
  comma stays.
\<close>

lemma erase_dbg_keeps_comma:
  assumes "find_sub dbg_marker (p @ '','' @ dbg_marker @ r) = Some (Suc (length p))"
    and "find_sub [CHR 0x0A] (dbg_marker @ r) = None"
  shows "erase_dbg (p @ '','' @ dbg_marker @ r) = p @ '',''"
proof -
  let ?s = "p @ '','' @ dbg_marker @ r"
  have "?s ! length p = CHR '',''"
    by (simp add: nth_append)
  then have c: "\<not> (2 \<le> Suc (length p) \<and> ?s ! (Suc (length p) - 2) = CHR '','' \<and> ?s ! (Suc (length p) - 1) = CHR '' '')"
    by simp
  have d: "drop (Suc (length p)) ?s = dbg_marker @ r"
    by simp
  show ?thesis
    unfolding erase_dbg_def assms(1) option.case Let_def if_not_P[OF c] d assms(2)
    by simp
qed

subsection \<open>getDebugLoc\<close>

definition loc_of :: "llmodule \<Rightarrow> addr \<Rightarrow> debug_loc option" where
  "loc_of m I = (case inst_of m I of Some i \<Rightarrow> dloc i | None \<Rightarrow> None)"

text \<open>\<open>DL && DL->getLine() != 0\<close>\<close>

definition valid_loc :: "llmodule \<Rightarrow> addr \<Rightarrow> debug_loc option" where
  "valid_loc m I = (case loc_of m I of
      Some d \<Rightarrow> (if dl_line d \<noteq> 0 then Some d else None) | None \<Rightarrow> None)"

definition loc_text :: "debug_loc \<Rightarrow> string" where
  "loc_text d = '' <'' @ dl_file d @ '':'' @ show_nat (dl_line d)
     @ (if dl_col d \<noteq> 0 then '':'' @ show_nat (dl_col d) else [])"

definition unknown_loc :: string where
  "unknown_loc = '' <UNKNOWN>''"

text \<open>
  The loop over the block: skip to \<open>I\<close>, then look at up to ten instructions.
\<close>

fun approx_loc :: "llmodule \<Rightarrow> addr \<Rightarrow> bool \<Rightarrow> nat \<Rightarrow> addr list \<Rightarrow> string" where
  "approx_loc m I foundCurrent lookahead [] = unknown_loc"
| "approx_loc m I foundCurrent lookahead (NextI # rest) =
     (if \<not> foundCurrent then approx_loc m I (NextI = I) lookahead rest
      else if 10 \<le> lookahead then unknown_loc
      else case valid_loc m NextI of
             Some d \<Rightarrow> loc_text d @ ''> (approx)''
           | None \<Rightarrow> approx_loc m I True (Suc lookahead) rest)"

definition getDebugLoc :: "pass_params \<Rightarrow> llmodule \<Rightarrow> addr \<Rightarrow> string" where
  "getDebugLoc cfg m I =
     (if I = nullptr then unknown_loc
      else case valid_loc m I of
        Some d \<Rightarrow> loc_text d @ ''>''
      | None \<Rightarrow>
          if \<not> ApproxDebugInfo cfg then unknown_loc
          else if block_of_inst m I = nullptr then unknown_loc
          else approx_loc m I False 0 (block_insts m (block_of_inst m I)))"

definition first_valid :: "llmodule \<Rightarrow> addr list \<Rightarrow> string" where
  "first_valid m is = (case List.map_filter (valid_loc m) is of
      [] \<Rightarrow> unknown_loc | d # _ \<Rightarrow> loc_text d @ ''> (approx)'')"

lemma first_valid_simps [simp]:
  "first_valid m [] = unknown_loc"
  "first_valid m (x # xs) = (case valid_loc m x of
      Some d \<Rightarrow> loc_text d @ ''> (approx)'' | None \<Rightarrow> first_valid m xs)"
  by (auto simp: first_valid_def List.map_filter_def split: option.split)

lemma approx_loc_found: "n \<le> 10 \<Longrightarrow> approx_loc m I True n is = first_valid m (take (10 - n) is)"
proof (induction "is" arbitrary: n)
  case Nil
  then show ?case by simp
next
  case (Cons x xs)
  then show ?case
    by (cases "n = 10") (auto simp: take_Cons' split: option.split)
qed

lemma approx_loc_search:
  "approx_loc m I False 0 is = first_valid m (take 10 (tl (dropWhile (\<lambda>x. x \<noteq> I) is)))"
  by (induction "is") (auto simp: approx_loc_found)

subsection \<open>Levels\<close>

type_synonym value_levels = "(addr, int) dmap"
type_synonym function_levels = "(addr, int) dmap"

definition getLevel :: "llmodule \<Rightarrow> addr \<Rightarrow> value_levels \<Rightarrow> function_levels \<Rightarrow> int" where
  "getLevel m V ValueLevel FunctionLevel =
     (if V = nullptr then 0
      else if dm_count ValueLevel V then dm_get 0 ValueLevel V
      else case kind_of m V of
        VInstruction i \<Rightarrow>
          (if ifunc i \<noteq> nullptr \<and> dm_count FunctionLevel (ifunc i)
           then dm_get 0 FunctionLevel (ifunc i) else 0)
      | VArgument F n \<Rightarrow>
          (if F \<noteq> nullptr \<and> dm_count FunctionLevel F then dm_get 0 FunctionLevel F else 0)
      | _ \<Rightarrow> 0)"

definition getFuncLevel :: "llmodule \<Rightarrow> addr \<Rightarrow> value_levels \<Rightarrow> function_levels \<Rightarrow> string" where
  "getFuncLevel m I ValueLevel FunctionLevel =
     (if I = nullptr then []
      else if func_of_inst m I = nullptr then []
      else '' FUNC='' @ fun_name m (func_of_inst m I)
           @ '' L='' @ show_int (getLevel m I ValueLevel FunctionLevel))"

definition getFuncLevelForValue ::
    "llmodule \<Rightarrow> addr \<Rightarrow> value_levels \<Rightarrow> function_levels \<Rightarrow> string" where
  "getFuncLevelForValue m V ValueLevel FunctionLevel =
     (if V = nullptr then []
      else if func_of_value m V = nullptr then []
      else '' FUNC='' @ fun_name m (func_of_value m V)
           @ '' L='' @ show_int (getLevel m V ValueLevel FunctionLevel))"

text \<open>\<open>FunctionLevel.count(F) ? FunctionLevel[F] : 0\<close>, written out at three call sites.\<close>

definition level_of_function :: "function_levels \<Rightarrow> addr \<Rightarrow> int" where
  "level_of_function FunctionLevel F =
     (if dm_count FunctionLevel F then dm_get 0 FunctionLevel F else 0)"

lemma getLevel_own: "V \<noteq> nullptr \<Longrightarrow> map_of vl V = Some l \<Longrightarrow> getLevel m V vl fl = l"
  by (auto simp: getLevel_def dm_get_def)

lemma getLevel_inherited:
  assumes "V \<noteq> nullptr" "map_of vl V = None"
  shows "getLevel m V vl fl =
    (if func_of_value m V = nullptr then 0 else level_of_function fl (func_of_value m V))"
  using assms by (auto simp: getLevel_def level_of_function_def func_of_value_def dom_def
      split: vkind.split)

lemma func_of_value_inst: "inst_of m I = Some i \<Longrightarrow> func_of_value m I = func_of_inst m I"
  by (auto simp: inst_of_def func_of_value_def func_of_inst_def split: vkind.splits)

text \<open>On instructions the two printers agree.\<close>

lemma getFuncLevelForValue_inst:
  "inst_of m I = Some i \<Longrightarrow> getFuncLevelForValue m I vl fl = getFuncLevel m I vl fl"
  by (simp add: getFuncLevelForValue_def getFuncLevel_def func_of_value_inst)

subsection \<open>Properties\<close>

text \<open>
  C24: \<open>getDebugLoc\<close>. An instruction with a debug location whose line is not 0 is printed with
  it. Otherwise, when approximate locations are on, the location printed is the first valid
  one among the ten instructions that follow it in its block, marked as approximate, and
  unknown when there is none.
\<close>

theorem debug_loc_choice:
  "getDebugLoc cfg m I =
     (if I = nullptr then unknown_loc
      else case valid_loc m I of
        Some d \<Rightarrow> loc_text d @ ''>''
      | None \<Rightarrow>
          if ApproxDebugInfo cfg \<and> block_of_inst m I \<noteq> nullptr
          then first_valid m (take 10 (tl (dropWhile (\<lambda>x. x \<noteq> I)
                 (block_insts m (block_of_inst m I)))))
          else unknown_loc)"
  by (simp add: getDebugLoc_def approx_loc_search split: option.split)

text \<open>
  C25: \<open>getValueName\<close> leaves a dangling comma. For a value printed as \<open>p, !dbg r\<close> (the
  first marker, no newline after it) the name is \<open>p\<close> with the comma that the comment in the
  code says is removed.
\<close>

theorem value_name_keeps_comma:
  assumes "V \<noteq> nullptr" "printed (vinfo_of m V) = p @ '','' @ dbg_marker @ r"
    and "\<And>j. j \<le> length p \<Longrightarrow> \<not> starts_with dbg_marker (drop j (printed (vinfo_of m V)))"
    and "find_sub [CHR 0x0A] (dbg_marker @ r) = None"
  shows "getValueName m V = p @ '',''"
proof -
  have "find_sub dbg_marker (p @ '','' @ dbg_marker @ r) = Some (Suc (length p))"
    using assms(2,3) by (intro find_sub_eqI) (simp_all add: starts_with_def)
  from erase_dbg_keeps_comma[OF this assms(4)] show ?thesis
    using assms(1,2) by (simp add: getValueName_def)
qed

definition ex_printed :: llmodule where
  "ex_printed = \<lparr>vals = [(1, \<lparr>kind = VOther, stripped = 1, is_pointer = False, users = [],
     printed = ''ret void, !dbg !7''\<rparr>)], funcs = []\<rparr>"

lemma value_name_keeps_comma_witness: "getValueName ex_printed 1 = ''ret void,''"
proof -
  have "\<not> starts_with dbg_marker (drop j (printed (vinfo_of ex_printed 1)))" if "j \<le> length ''ret void''" for j
  proof -
    have "j \<in> {0, 1, 2, 3, 4, 5, 6, 7, 8}" using that by auto
    then show ?thesis by (auto simp: starts_with_def dbg_marker_def vinfo_of_def ex_printed_def)
  qed
  moreover have "printed (vinfo_of ex_printed 1) = ''ret void'' @ '','' @ dbg_marker @ ''7''"
    "find_sub [CHR 0x0A] (dbg_marker @ ''7'') = None" by code_simp+
  ultimately have "getValueName ex_printed 1 = ''ret void'' @ '',''"
    by (intro value_name_keeps_comma[where r = "''7''"]) simp_all
  then show ?thesis by simp
qed

text \<open>
  \<open>getLevel\<close>: a value recorded in \<open>ValueLevel\<close> has that level; another instruction or argument
  has the level of its function, and everything else level 0.
\<close>

lemma level_lookup:
  "getLevel m V vl fl =
     (if V = nullptr then 0
      else case map_of vl V of
        Some l \<Rightarrow> l
      | None \<Rightarrow> if func_of_value m V = nullptr then 0
                else (case map_of fl (func_of_value m V) of Some l \<Rightarrow> l | None \<Rightarrow> 0))"
  by (auto simp: getLevel_def func_of_value_def dm_get_def split: option.split vkind.split)

end
