(* ===== verification/Origins.thy ===== *)
theory Origins
  imports Printing
begin

text \<open>
  Where a pointer comes from: \<open>derivesFromPointerParameter\<close>, the struct field indices of a
  chain of \<open>getelementptr\<close> (\<open>extractStructFieldIndices\<close>), and the pointer parameter a value
  derives from (\<open>getPointerParameterOrigin\<close>).

  The two recursive searches carry the set of visited values through every call, also from
  one operand of a phi, or one store to an alloca, to the next. They are nested recursive
  functions: that they end needs the fact that the set they return contains the one they
  were given.
\<close>

subsection \<open>derivesFromPointerParameter\<close>

text \<open>
  This search has no visited set and walks the base pointers of a \<open>getelementptr\<close> chain for
  as long as there are any: \<open>None\<close> stands for a chain that never ends.
\<close>

definition stores_ptr_param :: "llmodule \<Rightarrow> addr list \<Rightarrow> bool" where
  "stores_ptr_param m us =
     list_ex (\<lambda>U. case as_store m U of Some (v, p) \<Rightarrow> is_ptr_arg m v | None \<Rightarrow> False) us"

partial_function (option) derivesFromPointerParameter :: "llmodule \<Rightarrow> addr \<Rightarrow> bool option" where
  "derivesFromPointerParameter m V =
     (if V = nullptr then Some False
      else if is_ptr_arg m (strip m V) then Some True
      else case as_gep m (strip m V) of
        Some (p, t, is) \<Rightarrow> derivesFromPointerParameter m p
      | None \<Rightarrow>
          (case as_load m (strip m V) of
             Some LoadPtr \<Rightarrow>
               (case as_alloca m LoadPtr of
                  Some b \<Rightarrow> Some (stores_ptr_param m (users_of m LoadPtr))
                | None \<Rightarrow> Some False)
           | None \<Rightarrow> Some False))"

text \<open>It returns whenever the base pointers of the chain descend in some measure.\<close>

lemma derives_terminates:
  fixes rank :: "addr \<Rightarrow> nat"
  assumes "\<And>V p t is. as_gep m (strip m V) = Some (p, t, is) \<Longrightarrow> rank p < rank V"
  shows "\<exists>b. derivesFromPointerParameter m V = Some b"
proof (induction "rank V" arbitrary: V rule: less_induct)
  case less
  show ?case
    by (subst derivesFromPointerParameter.simps)
      (auto split: option.split intro: less assms)
qed

subsection \<open>extractStructFieldIndices\<close>

text \<open>The last index of a GEP with at least two, when it is a constant.\<close>

definition last_field :: "llmodule \<Rightarrow> addr list \<Rightarrow> int option" where
  "last_field m is = (if 2 \<le> length is then as_const_int m (is ! (length is - 1)) else None)"

function (sequential) esfi :: "llmodule \<Rightarrow> addr \<Rightarrow> addr dset \<Rightarrow> int list \<times> addr dset"
  and esfi_stores :: "llmodule \<Rightarrow> addr list \<Rightarrow> addr dset \<Rightarrow> int list \<times> addr dset" where
  "esfi m V Visited =
     (if V = nullptr then ([], Visited)
      else if ds_count Visited V then ([], Visited)
      else case iop_of m V of
        GEP p t is \<Rightarrow>
          (let (indices, Visited') = esfi m p (ds_insert V Visited)
           in (case last_field m is of Some c \<Rightarrow> indices @ [c] | None \<Rightarrow> indices, Visited'))
      | Load LoadPtr \<Rightarrow>
          (case as_alloca m LoadPtr of
             Some b \<Rightarrow> esfi_stores m (users_of m LoadPtr) (ds_insert V Visited)
           | None \<Rightarrow> esfi m LoadPtr (ds_insert V Visited))
      | _ \<Rightarrow> ([], ds_insert V Visited))"
| "esfi_stores m [] Visited = ([], Visited)"
| "esfi_stores m (U # us) Visited =
     (case as_store m U of
        Some (v, p) \<Rightarrow>
          (let (storedIndices, Visited') = esfi m (strip m v) Visited
           in if storedIndices \<noteq> [] then (storedIndices, Visited')
              else esfi_stores m us Visited')
      | None \<Rightarrow> esfi_stores m us Visited)"
  by pat_completeness auto

lemma esfi_visited_dom:
  "esfi_esfi_stores_dom (Inl (m, V, vis)) \<Longrightarrow> set vis \<subseteq> set (snd (esfi m V vis))"
  "esfi_esfi_stores_dom (Inr (m, us, vis)) \<Longrightarrow> set vis \<subseteq> set (snd (esfi_stores m us vis))"
proof (induction m V vis and m us vis rule: esfi_esfi_stores.pinduct)
  case (1 m V Visited)
  then show ?case
    by (fastforce simp: esfi.psimps split: iop.splits option.splits prod.splits)
next
  case (2 m Visited)
  then show ?case by (simp add: esfi_stores.psimps)
next
  case (3 m U us Visited)
  then show ?case
    by (fastforce simp: esfi_stores.psimps split: option.splits prod.splits)
qed

lemma card_insert_visited:
  assumes "V \<in> universe m" "V \<notin> set vis"
  shows "card (universe m - insert V (set vis)) < card (universe m - set vis)"
  using assms by (intro psubset_card_mono) auto

lemma card_visited_mono:
  "set vis \<subseteq> set vis' \<Longrightarrow> card (universe m - set vis') \<le> card (universe m - set vis)"
  by (intro card_mono) auto

termination esfi
proof (relation "measures [\<lambda>x. case x of Inl (m, V, vis) \<Rightarrow> card (universe m - set vis)
                              | Inr (m, us, vis) \<Rightarrow> card (universe m - set vis),
                          \<lambda>x. case x of Inl (m, V, vis) \<Rightarrow> 0 | Inr (m, us, vis) \<Rightarrow> Suc (length us)]",
    goal_cases)
  case 1
  then show ?case by simp
next
  case (7 m U us Visited st x y)
  then show ?case
    using esfi_visited_dom(1)[of m "strip m x" Visited] card_visited_mono[of Visited _ m]
    by (auto simp: less_le dest!: sym[of "(_, _)" "esfi _ _ _"])
qed (auto intro!: card_insert_visited iop_universe)

definition extractStructFieldIndices :: "llmodule \<Rightarrow> addr \<Rightarrow> int list" where
  "extractStructFieldIndices m V = fst (esfi m V [])"

declare esfi.simps [simp del]

subsection \<open>getPointerParameterOrigin\<close>

text \<open>
  The result is the parameter (null for none), the visited set and the text printed when
  \<open>PrintTracking\<close> is on. \<open>gppo_phi\<close> is the loop over the incoming values of a phi, from
  path number \<open>i\<close> with the first parameter found so far; \<open>gppo_stores\<close> the loop over the
  users of an \<open>alloca\<close>.
\<close>

definition nl :: string where
  "nl = [CHR 0x0A]"

definition indent :: "nat \<Rightarrow> string" where
  "indent Depth = replicate (2 * Depth) (CHR '' '')"

definition say :: "bool \<Rightarrow> string \<Rightarrow> string" where
  "say PrintTracking s = (if PrintTracking then s else [])"

text \<open>The lines of the search, by the step that prints them.\<close>

definition t_visited :: "nat \<Rightarrow> string" where
  "t_visited d = indent d @ arrow @ '' (already visited, stopping)'' @ nl"

definition t_enter :: "llmodule \<Rightarrow> addr \<Rightarrow> nat \<Rightarrow> string" where
  "t_enter m V d = indent d @ getValueName m V @ nl
     @ (if strip m V \<noteq> V
        then indent d @ ''  (after stripping casts)'' @ nl
             @ indent d @ ''  '' @ getValueName m (strip m V) @ nl
        else [])"

definition t_parameter :: "llmodule \<Rightarrow> addr \<Rightarrow> nat \<Rightarrow> string" where
  "t_parameter m a d = indent d @ ''  '' @ arrow @ '' parameter #'' @ show_nat (arg_no m a) @ nl"

definition t_phi :: "nat \<Rightarrow> nat \<Rightarrow> string" where
  "t_phi n d = indent d @ ''  PHI with '' @ show_nat n @ '' paths:'' @ nl"

definition t_path :: "nat \<Rightarrow> string \<Rightarrow> nat \<Rightarrow> string" where
  "t_path i b d = indent d @ ''  Path '' @ show_nat i @ '' (from %'' @ b @ ''):'' @ nl
     @ indent d @ ''    ''"

definition t_path_result :: "llmodule \<Rightarrow> addr \<Rightarrow> nat \<Rightarrow> string" where
  "t_path_result m a d = indent d @ ''    '' @ arrow
     @ (if a \<noteq> nullptr then '' connects to parameter #'' @ show_nat (arg_no m a)
        else '' no parameter connection'') @ nl"

definition t_base :: "nat \<Rightarrow> string" where
  "t_base d = indent d @ ''  '' @ arrow @ '' base pointer:'' @ nl @ indent d @ ''    ''"

definition t_load :: "llmodule \<Rightarrow> addr \<Rightarrow> nat \<Rightarrow> string" where
  "t_load m p d = indent d @ ''  '' @ arrow @ '' load from:'' @ nl
     @ indent d @ ''    '' @ getValueName m p @ nl"

definition t_stored :: "llmodule \<Rightarrow> addr \<Rightarrow> nat \<Rightarrow> string" where
  "t_stored m a d =
     indent d @ ''    '' @ arrow @ '' stores parameter #'' @ show_nat (arg_no m a) @ nl"

definition t_call :: "llmodule \<Rightarrow> addr \<Rightarrow> nat \<Rightarrow> string" where
  "t_call m Callee d = indent d @ ''  '' @ arrow
     @ (if Callee \<noteq> nullptr then '' call to '' @ fun_name m Callee @ '' (no parameter)''
        else '' indirect call (no parameter)'') @ nl"

definition t_none :: "nat \<Rightarrow> string" where
  "t_none d = indent d @ ''  '' @ arrow @ '' no parameter connection'' @ nl"

function (sequential) gppo ::
    "llmodule \<Rightarrow> bool \<Rightarrow> addr \<Rightarrow> addr dset \<Rightarrow> nat \<Rightarrow> addr \<times> addr dset \<times> string"
  and gppo_phi :: "llmodule \<Rightarrow> bool \<Rightarrow> (addr \<times> string) list \<Rightarrow> nat \<Rightarrow> addr \<Rightarrow> addr dset \<Rightarrow> nat
      \<Rightarrow> addr \<times> addr dset \<times> string"
  and gppo_stores :: "llmodule \<Rightarrow> bool \<Rightarrow> addr list \<Rightarrow> addr dset \<Rightarrow> nat
      \<Rightarrow> addr \<times> addr dset \<times> string" where
  "gppo m pt V Visited Depth =
     (if V = nullptr then (nullptr, Visited, [])
      else if ds_count Visited V then (nullptr, Visited, say pt (t_visited Depth))
      else if is_ptr_arg m (strip m V) then
        (strip m V, ds_insert V Visited,
         say pt (t_enter m V Depth) @ say pt (t_parameter m (strip m V) Depth))
      else case iop_of m (strip m V) of
        Phi inc \<Rightarrow>
          (let (r, Visited', out) = gppo_phi m pt inc 0 nullptr (ds_insert V Visited) Depth
           in (r, Visited', say pt (t_enter m V Depth) @ say pt (t_phi (length inc) Depth) @ out))
      | GEP p t is \<Rightarrow>
          (let (r, Visited', out) = gppo m pt p (ds_insert V Visited) (Depth + 2)
           in (r, Visited', say pt (t_enter m V Depth) @ say pt (t_base Depth) @ out))
      | Load p \<Rightarrow>
          (let (r, Visited', out) =
             (case as_alloca m (strip m p) of
                Some b \<Rightarrow> gppo_stores m pt (users_of m (strip m p)) (ds_insert V Visited) Depth
              | None \<Rightarrow> gppo m pt (strip m p) (ds_insert V Visited) (Depth + 2))
           in (r, Visited', say pt (t_enter m V Depth) @ say pt (t_load m (strip m p) Depth) @ out
                @ (if r \<noteq> nullptr then [] else say pt (t_none Depth))))
      | Call Callee c as \<Rightarrow>
          (nullptr, ds_insert V Visited,
           say pt (t_enter m V Depth) @ say pt (t_call m Callee Depth))
      | _ \<Rightarrow> (nullptr, ds_insert V Visited,
           say pt (t_enter m V Depth) @ say pt (t_none Depth)))"
| "gppo_phi m pt [] i FirstParam Visited Depth = (FirstParam, Visited, [])"
| "gppo_phi m pt ((Incoming, bname) # inc) i FirstParam Visited Depth =
     (let (Param, Visited', out) = gppo m pt Incoming Visited (Depth + 2);
          (r, Visited'', out') = gppo_phi m pt inc (Suc i)
             (if Param \<noteq> nullptr \<and> FirstParam = nullptr then Param else FirstParam) Visited' Depth
      in (r, Visited'', say pt (t_path i bname Depth) @ out
            @ say pt (t_path_result m Param Depth) @ out'))"
| "gppo_stores m pt [] Visited Depth = (nullptr, Visited, [])"
| "gppo_stores m pt (U # us) Visited Depth =
     (case as_store m U of
        None \<Rightarrow> gppo_stores m pt us Visited Depth
      | Some (v, p) \<Rightarrow>
          if is_ptr_arg m (strip m v) then
            (strip m v, Visited, say pt (t_stored m (strip m v) Depth))
          else
            (let (r, Visited', out) = gppo m pt (strip m v) Visited (Depth + 2)
             in if r \<noteq> nullptr then (r, Visited', out)
                else let (r', Visited'', out') = gppo_stores m pt us Visited' Depth
                     in (r', Visited'', out @ out')))"
  by pat_completeness auto

lemma gppo_visited_dom:
  "gppo_gppo_phi_gppo_stores_dom (Inl (m, pt, V, vis, d)) \<Longrightarrow>
     set vis \<subseteq> set (fst (snd (gppo m pt V vis d)))"
  "gppo_gppo_phi_gppo_stores_dom (Inr (Inl (m, pt, inc, i, fp, vis, d))) \<Longrightarrow>
     set vis \<subseteq> set (fst (snd (gppo_phi m pt inc i fp vis d)))"
  "gppo_gppo_phi_gppo_stores_dom (Inr (Inr (m, pt, us, vis, d))) \<Longrightarrow>
     set vis \<subseteq> set (fst (snd (gppo_stores m pt us vis d)))"
proof (induction m pt V vis d and m pt inc i fp vis d and m pt us vis d
    rule: gppo_gppo_phi_gppo_stores.pinduct)
  case (1 m pt V Visited Depth)
  show ?case
  proof (cases "V = nullptr \<or> V \<in> set Visited \<or> is_ptr_arg m (strip m V)")
    case True
    then show ?thesis
      using 1(1) by (auto simp: gppo.psimps Let_def)
  next
    case False
    note ih = "1.IH"
    show ?thesis
    proof (cases "iop_of m (strip m V)")
      case (Load p)
      show ?thesis
      proof (cases "as_alloca m (strip m p)")
        case None
        have "set (ds_insert V Visited) \<subseteq>
            set (fst (snd (gppo m pt (strip m p) (ds_insert V Visited) (Depth + 2))))"
          by (rule ih) (use False Load None in auto)
        then show ?thesis
          using False Load None
          by (auto simp: gppo.psimps[OF "1.hyps"] split: prod.splits)
      next
        case (Some b)
        have "set (ds_insert V Visited) \<subseteq>
            set (fst (snd (gppo_stores m pt (users_of m (strip m p)) (ds_insert V Visited) Depth)))"
          by (rule ih) (use False Load Some in auto)
        then show ?thesis
          using False Load Some
          by (auto simp: gppo.psimps[OF "1.hyps"] split: prod.splits)
      qed
    qed (use ih False in \<open>auto simp: gppo.psimps[OF "1.hyps"] split: prod.splits\<close>)
  qed
next
  case (2 m pt i FirstParam Visited Depth)
  then show ?case by (simp add: gppo_phi.psimps)
next
  case (3 m pt Incoming bname inc i FirstParam Visited Depth)
  then show ?case
    by (fastforce simp: gppo_phi.psimps Let_def split: prod.splits)
next
  case (4 m pt Visited Depth)
  then show ?case by (simp add: gppo_stores.psimps)
next
  case (5 m pt U us Visited Depth)
  then show ?case
    by (fastforce simp: gppo_stores.psimps Let_def split: option.splits prod.splits)
qed

lemma gppo_dom_card:
  assumes "(r, vis', out) = gppo m pt V vis d" "gppo_gppo_phi_gppo_stores_dom (Inl (m, pt, V, vis, d))"
  shows "card (universe m - set vis') \<le> card (universe m - set vis)"
  using gppo_visited_dom(1)[OF assms(2)] card_visited_mono[of vis vis' m]
  by (simp flip: assms(1))

lemma strip_op_universe: "iop_of m (strip m V) \<noteq> OtherOp \<Longrightarrow> V \<in> universe m"
  by (cases rule: vinfo_cases[of m V])
    (auto simp: strip_def no_vinfo_def dest: vals_universe(1) iop_universe)

termination gppo
proof (relation "measures
      [\<lambda>x. case x of Inl (m, pt, V, vis, d) \<Rightarrow> card (universe m - set vis)
         | Inr (Inl (m, pt, inc, i, fp, vis, d)) \<Rightarrow> card (universe m - set vis)
         | Inr (Inr (m, pt, us, vis, d)) \<Rightarrow> card (universe m - set vis),
       \<lambda>x. case x of Inl y \<Rightarrow> 0
         | Inr (Inl (m, pt, inc, i, fp, vis, d)) \<Rightarrow> Suc (length inc)
         | Inr (Inr (m, pt, us, vis, d)) \<Rightarrow> Suc (length us)]",
    goal_cases)
  case 1
  then show ?case by simp
qed (auto intro!: card_insert_visited strip_op_universe dest: gppo_dom_card le_neq_implies_less)

declare gppo.simps [simp del]

text \<open>
  The calls of the pass: with a fresh visited set, quietly or with the search printed.
\<close>

definition getPointerParameterOrigin :: "llmodule \<Rightarrow> addr \<Rightarrow> addr" where
  "getPointerParameterOrigin m V = fst (gppo m False V [] 0)"

definition trackedPointerParameterOrigin :: "llmodule \<Rightarrow> addr \<Rightarrow> addr \<times> string" where
  "trackedPointerParameterOrigin m V =
     (case gppo m True V [] 0 of (r, Visited, out) \<Rightarrow> (r, out))"


declare gppo_phi.simps [simp del] gppo_stores.simps [simp del]

text \<open>What the search looks for, as a relation: the values next in line, and the answer.\<close>

definition stored_values :: "llmodule \<Rightarrow> addr list \<Rightarrow> addr list" where
  "stored_values m us = List.map_filter (\<lambda>U. map_option (strip m \<circ> fst) (as_store m U)) us"

definition next_values :: "llmodule \<Rightarrow> addr \<Rightarrow> addr list" where
  "next_values m V =
     (case iop_of m (strip m V) of
        Phi inc \<Rightarrow> map fst inc
      | GEP p t is \<Rightarrow> [p]
      | Load p \<Rightarrow> (case as_alloca m (strip m p) of
            Some b \<Rightarrow> stored_values m (users_of m (strip m p))
          | None \<Rightarrow> [strip m p])
      | _ \<Rightarrow> [])"

text \<open>\<open>from_param m V P\<close>: following next values from \<open>V\<close> reaches the pointer parameter \<open>P\<close>.\<close>

definition reads_alloca :: "llmodule \<Rightarrow> addr \<Rightarrow> bool" where
  "reads_alloca m V = (\<exists>p b. iop_of m (strip m V) = Load p \<and> as_alloca m (strip m p) = Some b)"

inductive from_param :: "llmodule \<Rightarrow> addr \<Rightarrow> addr \<Rightarrow> bool" for m where
  here: "V \<noteq> nullptr \<Longrightarrow> is_ptr_arg m (strip m V) \<Longrightarrow> from_param m V (strip m V)"
| stored: "V \<noteq> nullptr \<Longrightarrow> \<not> is_ptr_arg m (strip m V) \<Longrightarrow> reads_alloca m V \<Longrightarrow>
    W \<in> set (next_values m V) \<Longrightarrow> is_ptr_arg m W \<Longrightarrow> from_param m V W"
| step: "V \<noteq> nullptr \<Longrightarrow> \<not> is_ptr_arg m (strip m V) \<Longrightarrow>
    W \<in> set (next_values m V) \<Longrightarrow> from_param m W P \<Longrightarrow> from_param m V P"

lemma stored_values_Cons [simp]:
  "stored_values m (U # us) = (case as_store m U of
     Some (v, p) \<Rightarrow> strip m v # stored_values m us | None \<Rightarrow> stored_values m us)"
  "stored_values m [] = []"
  by (auto simp: stored_values_def List.map_filter_def split: option.split)

subsubsection \<open>The search is sound\<close>

lemma gppo_sound:
  "fst (gppo m pt V vis d) = P \<Longrightarrow> P \<noteq> nullptr \<Longrightarrow> from_param m V P"
  "fst (gppo_phi m pt inc i fp vis d) = P \<Longrightarrow> P \<noteq> nullptr \<Longrightarrow>
     P = fp \<or> (\<exists>W\<in>set (map fst inc). from_param m W P)"
  "fst (gppo_stores m pt us vis d) = P \<Longrightarrow> P \<noteq> nullptr \<Longrightarrow>
     (\<exists>W\<in>set (stored_values m us). W = P \<and> is_ptr_arg m W \<or> from_param m W P)"
proof (induction m pt V vis d and m pt inc i fp vis d and m pt us vis d
    arbitrary: P and P and P rule: gppo_gppo_phi_gppo_stores.induct)
  case (1 m pt V Visited Depth)
  have V: "V \<noteq> nullptr" and vis: "V \<notin> set Visited"
    using "1.prems" by (auto simp: gppo.simps split: if_splits)
  show ?case
  proof (cases "is_ptr_arg m (strip m V)")
    case True
    then show ?thesis using "1.prems" V vis by (auto simp: gppo.simps intro: from_param.here)
  next
    case na: False
    have step: "from_param m V P" if "W \<in> set (next_values m V)" "from_param m W P" for W
      using from_param.step[OF V na that] .
    show ?thesis
    proof (cases "iop_of m (strip m V)")
      case (Load p)
      show ?thesis
      proof (cases "as_alloca m (strip m p)")
        case None
        have "from_param m (strip m p) P"
          by (rule "1.IH") (use V vis na Load None "1.prems" in
              \<open>auto simp: gppo.simps[of m pt V] split: prod.splits\<close>)
        then show ?thesis by (intro step) (auto simp: next_values_def Load None)
      next
        case (Some b)
        have "\<exists>W\<in>set (stored_values m (users_of m (strip m p))).
            W = P \<and> is_ptr_arg m W \<or> from_param m W P"
          by (rule "1.IH") (use V vis na Load Some "1.prems" in
              \<open>auto simp: gppo.simps[of m pt V] split: prod.splits\<close>)
        then show ?thesis
          using step from_param.stored[OF V na] Load Some
          by (auto simp: next_values_def reads_alloca_def)
      qed
    next
      case (GEP p t "is")
      have "from_param m p P"
        by (rule "1.IH") (use V vis na GEP "1.prems" in
            \<open>auto simp: gppo.simps[of m pt V] split: prod.splits\<close>)
      then show ?thesis by (intro step) (auto simp: next_values_def GEP)
    next
      case (Phi inc)
      have "P = nullptr \<or> (\<exists>W\<in>set (map fst inc). from_param m W P)"
        by (rule "1.IH") (use V vis na Phi "1.prems" in
            \<open>auto simp: gppo.simps[of m pt V] split: prod.splits\<close>)
      then show ?thesis using "1.prems" step by (auto simp: next_values_def Phi)
    qed (use V vis na "1.prems" in \<open>auto simp: gppo.simps\<close>)
  qed
next
  case (2 m pt i FirstParam Visited Depth)
  then show ?case by (simp add: gppo_phi.simps)
next
  case (3 m pt Incoming bname inc i FirstParam Visited Depth)
  then show ?case by (fastforce simp: gppo_phi.simps split: prod.splits if_splits)
next
  case (4 m pt Visited Depth)
  then show ?case by (simp add: gppo_stores.simps)
next
  case (5 m pt U us Visited Depth)
  then show ?case by (fastforce simp: gppo_stores.simps split: prod.splits if_splits option.splits)
qed

subsubsection \<open>The search is complete\<close>

text \<open>
  A search that finds nothing has left every value it visited without anything to follow
  outside the visited values.
\<close>

definition null_is_no_param :: "llmodule \<Rightarrow> bool" where
  "null_is_no_param m = (\<not> is_ptr_arg m nullptr)"

definition dead_end :: "llmodule \<Rightarrow> addr set \<Rightarrow> addr \<Rightarrow> bool" where
  "dead_end m D W = (\<not> is_ptr_arg m (strip m W)
     \<and> (reads_alloca m W \<longrightarrow> \<not> list_ex (is_ptr_arg m) (next_values m W))
     \<and> set (next_values m W) \<subseteq> insert nullptr D)"

definition explored :: "llmodule \<Rightarrow> addr dset \<Rightarrow> addr dset \<Rightarrow> bool" where
  "explored m vis vis' = (set vis \<subseteq> set vis' \<and>
     (\<forall>W \<in> set vis' - set vis. dead_end m (set vis') W))"

lemma dead_end_mono: "dead_end m D W \<Longrightarrow> D \<subseteq> E \<Longrightarrow> dead_end m E W"
  by (auto simp: dead_end_def)

lemma explored_refl [simp]: "explored m vis vis"
  by (simp add: explored_def)

lemma explored_trans: "explored m a b \<Longrightarrow> explored m b c \<Longrightarrow> explored m a c"
  unfolding explored_def by (blast intro: dead_end_mono)

lemma explored_insert:
  "explored m (ds_insert V vis) vis' \<Longrightarrow> dead_end m (set vis') V \<Longrightarrow>
     explored m vis vis' \<and> V \<in> set vis'"
  by (auto simp: explored_def)

lemma gppo_null:
  assumes "null_is_no_param m"
  shows "gppo m pt V vis d = (nullptr, vis', out) \<Longrightarrow>
      explored m vis vis' \<and> V \<in> insert nullptr (set vis')"
    and "gppo_phi m pt inc i fp vis d = (nullptr, vis', out) \<Longrightarrow>
      explored m vis vis' \<and> fp = nullptr \<and> set (map fst inc) \<subseteq> insert nullptr (set vis')"
    and "gppo_stores m pt us vis d = (nullptr, vis', out) \<Longrightarrow>
      explored m vis vis' \<and> set (stored_values m us) \<subseteq> insert nullptr (set vis')
      \<and> \<not> list_ex (is_ptr_arg m) (stored_values m us)"
  using assms
proof (induction m pt V vis d and m pt inc i fp vis d and m pt us vis d
    arbitrary: vis' out and vis' out and vis' out rule: gppo_gppo_phi_gppo_stores.induct)
  case (1 m pt V Visited Depth)
  show ?case
  proof (cases "V = nullptr \<or> V \<in> set Visited")
    case True
    then show ?thesis using "1.prems" by (auto simp: gppo.simps split: if_splits)
  next
    case False
    then have new: "V \<noteq> nullptr" "V \<notin> set Visited" by auto
    then have na: "\<not> is_ptr_arg m (strip m V)"
      using "1.prems" by (auto simp: gppo.simps null_is_no_param_def split: if_splits)
    note simps = gppo.simps[of m pt V] new na next_values_def dead_end_def reads_alloca_def
    have ?thesis if "explored m (ds_insert V Visited) vis'" "dead_end m (set vis') V"
      using explored_insert[OF that] by simp
    note fin = this
    show ?thesis
    proof (cases "iop_of m (strip m V)")
      case (Load p)
      show ?thesis
      proof (cases "as_alloca m (strip m p)")
        case None
        obtain o' where "gppo m pt (strip m p) (ds_insert V Visited) (Depth + 2) = (nullptr, vis', o')"
          using "1.prems" by (auto simp: simps Load None split: prod.splits)
        then have "explored m (ds_insert V Visited) vis' \<and> strip m p \<in> insert nullptr (set vis')"
          by (intro "1.IH") (use new na Load None "1.prems" in auto)
        then show ?thesis by (intro fin) (auto simp: simps Load None)
      next
        case (Some b)
        obtain o' where "gppo_stores m pt (users_of m (strip m p)) (ds_insert V Visited) Depth
            = (nullptr, vis', o')"
          using "1.prems" by (auto simp: simps Load Some split: prod.splits)
        then have "explored m (ds_insert V Visited) vis' \<and>
            set (stored_values m (users_of m (strip m p))) \<subseteq> insert nullptr (set vis')
            \<and> \<not> list_ex (is_ptr_arg m) (stored_values m (users_of m (strip m p)))"
          by (intro "1.IH") (use new na Load Some "1.prems" in auto)
        then show ?thesis by (intro fin) (auto simp: simps Load Some)
      qed
    next
      case (GEP p t "is")
      obtain o' where "gppo m pt p (ds_insert V Visited) (Depth + 2) = (nullptr, vis', o')"
        using "1.prems" by (auto simp: simps GEP split: prod.splits)
      then have "explored m (ds_insert V Visited) vis' \<and> p \<in> insert nullptr (set vis')"
        by (intro "1.IH") (use new na GEP "1.prems" in auto)
      then show ?thesis by (intro fin) (auto simp: simps GEP)
    next
      case (Phi inc)
      obtain o' where "gppo_phi m pt inc 0 nullptr (ds_insert V Visited) Depth = (nullptr, vis', o')"
        using "1.prems" by (auto simp: simps Phi split: prod.splits)
      then have "explored m (ds_insert V Visited) vis' \<and> nullptr = nullptr
          \<and> set (map fst inc) \<subseteq> insert nullptr (set vis')"
        by (intro "1.IH") (use new na Phi "1.prems" in auto)
      then show ?thesis by (intro fin) (auto simp: simps Phi)
    qed (use new na "1.prems" in \<open>auto simp: simps explored_def\<close>)
  qed
next
  case (2 m pt i FirstParam Visited Depth)
  then show ?case by (simp add: gppo_phi.simps)
next
  case (3 m pt Incoming bname inc i FirstParam Visited Depth)
  obtain Param v1 o1 where g: "gppo m pt Incoming Visited (Depth + 2) = (Param, v1, o1)"
    by (metis prod_cases3)
  obtain o2 where p: "gppo_phi m pt inc (Suc i)
      (if Param \<noteq> nullptr \<and> FirstParam = nullptr then Param else FirstParam) v1 Depth = (nullptr, vis', o2)"
    using "3.prems" g by (auto simp: gppo_phi.simps split: prod.splits)
  have ih2: "explored m v1 vis' \<and> (if Param \<noteq> nullptr \<and> FirstParam = nullptr then Param else FirstParam) = nullptr
      \<and> set (map fst inc) \<subseteq> insert nullptr (set vis')"
    by (intro "3.IH"(2)[OF refl g[symmetric] refl p "3.prems"(2)])
  then have "Param = nullptr" by (auto split: if_splits)
  with g have "explored m Visited v1 \<and> Incoming \<in> insert nullptr (set v1)"
    by (intro "3.IH"(1)) (use "3.prems" in auto)
  with ih2 \<open>Param = nullptr\<close> show ?case
    by (auto intro: explored_trans simp: explored_def[of m v1])
next
  case (4 m pt Visited Depth)
  then show ?case by (simp add: gppo_stores.simps)
next
  case (5 m pt U us Visited Depth)
  show ?case
  proof (cases "as_store m U")
    case None
    with 5 show ?thesis by (simp add: gppo_stores.simps)
  next
    case (Some vp)
    obtain v p where vp: "vp = (v, p)" by fastforce
    have na: "\<not> is_ptr_arg m (strip m v)"
      using "5.prems" Some vp by (auto simp: gppo_stores.simps null_is_no_param_def split: if_splits)
    obtain r v1 o1 where g: "gppo m pt (strip m v) Visited (Depth + 2) = (r, v1, o1)"
      by (metis prod_cases3)
    have r: "r = nullptr"
      using "5.prems" Some vp na g by (auto simp: gppo_stores.simps split: if_splits prod.splits)
    obtain o2 where st: "gppo_stores m pt us v1 Depth = (nullptr, vis', o2)"
      using "5.prems" Some vp na g r by (auto simp: gppo_stores.simps split: prod.splits)
    have "explored m Visited v1 \<and> strip m v \<in> insert nullptr (set v1)"
      by (rule "5.IH"(2)[OF Some vp[symmetric] na]) (use g r "5.prems" in auto)
    moreover have "explored m v1 vis' \<and> set (stored_values m us) \<subseteq> insert nullptr (set vis')
        \<and> \<not> list_ex (is_ptr_arg m) (stored_values m us)"
      by (rule "5.IH"(3)[OF Some vp[symmetric] na refl g[symmetric] refl _ st "5.prems"(2)]) (use r in auto)
    ultimately show ?thesis
      using Some vp na by (auto intro: explored_trans simp: explored_def[of m v1])
  qed
qed

lemma explored_no_param:
  "from_param m V P \<Longrightarrow> explored m [] D \<Longrightarrow> V \<in> insert nullptr (set D) \<Longrightarrow> False"
proof (induction rule: from_param.induct)
  case (step V W P)
  then have "dead_end m (set D) V" by (auto simp: explored_def)
  with step show ?case by (auto simp: dead_end_def)
qed (auto simp: explored_def dead_end_def list_ex_iff)

lemma from_param_is_param: "from_param m V P \<Longrightarrow> is_ptr_arg m P"
  by (induction rule: from_param.induct) auto

lemma origin_sound: "getPointerParameterOrigin m V = P \<Longrightarrow> P \<noteq> nullptr \<Longrightarrow> from_param m V P"
  by (simp add: getPointerParameterOrigin_def gppo_sound(1))

lemma origin_complete:
  assumes "null_is_no_param m" "getPointerParameterOrigin m V = nullptr"
  shows "\<not> from_param m V P"
proof
  assume fp: "from_param m V P"
  obtain vis' out where "gppo m False V [] 0 = (nullptr, vis', out)"
    using assms(2) by (metis getPointerParameterOrigin_def prod.collapse)
  from gppo_null(1)[OF assms(1) this] fp show False
    using explored_no_param by blast
qed

subsubsection \<open>Printing does not change the search\<close>

definition search_result :: "'a \<times> 'b \<times> 'c \<Rightarrow> 'a \<times> 'b" where
  "search_result x = (fst x, fst (snd x))"

lemma gppo_silent:
  "search_result (gppo m pt' V vis d') = search_result (gppo m pt V vis d)"
  "search_result (gppo_phi m pt' inc i' fp vis d') = search_result (gppo_phi m pt inc i fp vis d)"
  "search_result (gppo_stores m pt' us vis d') = search_result (gppo_stores m pt us vis d)"
proof (induction m pt V vis d and m pt inc i fp vis d and m pt us vis d
    arbitrary: d' and i' d' and d' rule: gppo_gppo_phi_gppo_stores.induct)
  case (1 m pt V Visited Depth)
  show ?case
  proof (cases "V = nullptr \<or> V \<in> set Visited \<or> is_ptr_arg m (strip m V)")
    case True
    then show ?thesis by (auto simp: gppo.simps search_result_def)
  next
    case False
    then have new: "V \<noteq> nullptr" "V \<notin> set Visited" "\<not> is_ptr_arg m (strip m V)" by auto
    have split: "search_result (case x of (r, v, out) \<Rightarrow> (r, v, f r out)) = search_result x" for x :: "addr \<times> addr dset \<times> string" and f
      by (cases x) (simp add: search_result_def)
    note simps = gppo.simps[of m _ V] new split
    show ?thesis
    proof (cases "iop_of m (strip m V)")
      case (Load p)
      show ?thesis
      proof (cases "as_alloca m (strip m p)")
        case None
        have "search_result (gppo m pt' (strip m p) (ds_insert V Visited) (d' + 2)) =
            search_result (gppo m pt (strip m p) (ds_insert V Visited) (Depth + 2))"
          by (intro "1.IH") (use new Load None in auto)
        then show ?thesis by (simp add: simps Load None)
      next
        case (Some b)
        have "search_result (gppo_stores m pt' (users_of m (strip m p)) (ds_insert V Visited) d') =
            search_result (gppo_stores m pt (users_of m (strip m p)) (ds_insert V Visited) Depth)"
          by (intro "1.IH") (use new Load Some in auto)
        then show ?thesis by (simp add: simps Load Some)
      qed
    next
      case (GEP p t "is")
      have "search_result (gppo m pt' p (ds_insert V Visited) (d' + 2)) =
          search_result (gppo m pt p (ds_insert V Visited) (Depth + 2))"
        by (intro "1.IH") (use new GEP in auto)
      then show ?thesis by (simp add: simps GEP)
    next
      case (Phi inc)
      have "search_result (gppo_phi m pt' inc 0 nullptr (ds_insert V Visited) d') =
          search_result (gppo_phi m pt inc 0 nullptr (ds_insert V Visited) Depth)"
        by (intro "1.IH") (use new Phi in auto)
      then show ?thesis by (simp add: simps Phi)
    qed (simp_all add: simps, simp_all add: search_result_def)
  qed
next
  case (2 m pt i FirstParam Visited Depth)
  then show ?case by (simp add: gppo_phi.simps search_result_def)
next
  case (3 m pt Incoming bname inc i FirstParam Visited Depth)
  obtain r v1 o1 where g: "gppo m pt Incoming Visited (Depth + 2) = (r, v1, o1)"
    by (metis prod_cases3)
  have "search_result (gppo m pt' Incoming Visited (d' + 2)) = (r, v1)"
    using "3.IH"(1)[where d' = "d' + 2"] g by (simp add: search_result_def)
  then obtain o1' where g': "gppo m pt' Incoming Visited (d' + 2) = (r, v1, o1')"
    by (metis search_result_def prod.collapse prod.inject)
  show ?case
    using "3.IH"(2)[OF refl g[symmetric] refl, where i' = "Suc i'" and d' = d'] g g'
    by (auto simp: gppo_phi.simps search_result_def split: prod.splits)
next
  case (4 m pt Visited Depth)
  then show ?case by (simp add: gppo_stores.simps search_result_def)
next
  case (5 m pt U us Visited Depth)
  show ?case
  proof (cases "as_store m U")
    case None
    with 5 show ?thesis by (simp add: gppo_stores.simps)
  next
    case (Some vp)
    obtain v p where vp: "vp = (v, p)" by fastforce
    show ?thesis
    proof (cases "is_ptr_arg m (strip m v)")
      case True
      then show ?thesis by (simp add: gppo_stores.simps Some vp search_result_def)
    next
      case False
      obtain r v1 o1 where g: "gppo m pt (strip m v) Visited (Depth + 2) = (r, v1, o1)"
        by (metis prod_cases3)
      have "search_result (gppo m pt' (strip m v) Visited (d' + 2)) = (r, v1)"
        using "5.IH"(2)[OF Some vp[symmetric] False, where d' = "d' + 2"] g by (simp add: search_result_def)
      then obtain o1' where g': "gppo m pt' (strip m v) Visited (d' + 2) = (r, v1, o1')"
        by (metis search_result_def prod.collapse prod.inject)
      show ?thesis
        using "5.IH"(3)[OF Some vp[symmetric] False refl g[symmetric] refl, where d' = d'] g g'
        by (auto simp: gppo_stores.simps Some vp False search_result_def split: prod.splits)
    qed
  qed
qed

lemma tracked_origin_eq: "fst (trackedPointerParameterOrigin m V) = getPointerParameterOrigin m V"
  using gppo_silent(1)[of m True V "[]" 0 False 0]
  by (auto simp: trackedPointerParameterOrigin_def getPointerParameterOrigin_def search_result_def
      split: prod.splits)

subsection \<open>Properties\<close>

text \<open>
  C20: \<open>getPointerParameterOrigin\<close> decides where a pointer comes from. The search with its
  visited set returns a pointer parameter from which the value derives (\<open>from_param\<close>: through
  casts, element addresses, phis, loads and stores to the local variable loaded), and returns
  null exactly when there is none. The search that prints its steps returns the same.
\<close>

theorem origin_decides:
  assumes "null_is_no_param m"
  shows "(if getPointerParameterOrigin m V = nullptr then \<not> (\<exists>P. from_param m V P)
     else from_param m V (getPointerParameterOrigin m V))
     \<and> fst (trackedPointerParameterOrigin m V) = getPointerParameterOrigin m V"
  using origin_complete[OF assms] origin_sound[of m V] by (auto simp: tracked_origin_eq)

lemma origin_decides_witness:
  "from_param ex_params 5 5 \<and> fst (trackedPointerParameterOrigin ex_params 5) = 5"
proof -
  have "null_is_no_param ex_params" "getPointerParameterOrigin ex_params 5 = 5" by code_simp+
  with origin_decides[of ex_params 5] show ?thesis by simp
qed

end
