(* ===== verification/Patterns.thy ===== *)
theory Patterns
  imports Origins
begin

text \<open>
  The comparisons of the pass: whether two \<open>getelementptr\<close> access the same field
  (\<open>sameGEPPattern\<close>), the users of a value in address order (\<open>getSortedUsers\<close>), and
  whether a load stands before the instruction that tainted its pointer
  (\<open>isLoadBeforeTaintOrigin\<close>).
\<close>

subsection \<open>sameGEPPattern\<close>

fun same_indices :: "llmodule \<Rightarrow> addr list \<Rightarrow> addr list \<Rightarrow> bool" where
  "same_indices m (i # is) (j # js) =
     (case as_const_int m i of
        Some c \<Rightarrow>
          (case as_const_int m j of
             Some d \<Rightarrow> (if c \<noteq> d then False else same_indices m is js)
           | None \<Rightarrow> False)
      | None \<Rightarrow> (if as_const_int m j \<noteq> None then False else same_indices m is js))"
| "same_indices m is js = True"

definition sameGEPPattern :: "llmodule \<Rightarrow> addr \<Rightarrow> addr \<Rightarrow> bool" where
  "sameGEPPattern m GEP1 GEP2 =
     (if GEP1 = nullptr \<or> GEP2 = nullptr then False
      else case (as_gep m GEP1, as_gep m GEP2) of
        (Some (p1, t1, is1), Some (p2, t2, is2)) \<Rightarrow>
          (if length is1 \<noteq> length is2 then False
           else if t1 \<noteq> t2 then False
           else same_indices m is1 is2)
      | _ \<Rightarrow> False)"

text \<open>
  The pattern of a GEP is its element type and its indices with every non-constant one
  forgotten; two GEPs match when they have the same pattern.
\<close>

definition gep_pattern :: "llmodule \<Rightarrow> addr \<Rightarrow> (nat \<times> int option list) option" where
  "gep_pattern m g = (case as_gep m g of
     Some (p, t, is) \<Rightarrow> Some (t, map (as_const_int m) is) | None \<Rightarrow> None)"

lemma same_indices_iff:
  "length is = length js \<Longrightarrow>
     same_indices m is js = (map (as_const_int m) is = map (as_const_int m) js)"
  by (induction m "is" js rule: same_indices.induct) (auto split: option.splits)

lemma sameGEPPattern_iff:
  "sameGEPPattern m g1 g2 =
     (g1 \<noteq> nullptr \<and> g2 \<noteq> nullptr \<and> gep_pattern m g1 \<noteq> None \<and> gep_pattern m g1 = gep_pattern m g2)"
  by (auto simp: sameGEPPattern_def gep_pattern_def same_indices_iff
      dest: map_eq_imp_length_eq split: option.splits)

subsection \<open>getSortedUsers\<close>

definition getSortedUsers :: "llmodule \<Rightarrow> addr \<Rightarrow> addr list" where
  "getSortedUsers m V = sort (users_of m V)"

lemma set_getSortedUsers [simp]: "set (getSortedUsers m V) = set (users_of m V)"
  by (simp add: getSortedUsers_def)

lemma sorted_getSortedUsers: "sorted (getSortedUsers m V)"
  by (simp add: getSortedUsers_def)

subsection \<open>isLoadBeforeTaintOrigin\<close>

definition isLoadBeforeTaintOrigin :: "llmodule \<Rightarrow> addr \<Rightarrow> addr \<Rightarrow> (addr, addr) dmap \<Rightarrow> bool" where
  "isLoadBeforeTaintOrigin m Ld Ptr PointerTaintOrigin =
     (if \<not> dm_count PointerTaintOrigin Ptr then False
      else if block_of_inst m Ld \<noteq> block_of_inst m (dm_get nullptr PointerTaintOrigin Ptr)
      then False
      else seen_at False Ld (dm_get nullptr PointerTaintOrigin Ptr)
             (block_insts m (block_of_inst m Ld)))"

text \<open>\<open>precedes m a b\<close>: both stand in one block, \<open>a\<close> not after \<open>b\<close>.\<close>

definition precedes :: "llmodule \<Rightarrow> addr \<Rightarrow> addr \<Rightarrow> bool" where
  "precedes m a b = (block_of_inst m a = block_of_inst m b
     \<and> not_after (block_insts m (block_of_inst m a)) a b)"

lemma isLoadBeforeTaintOrigin_iff:
  "isLoadBeforeTaintOrigin m Ld Ptr pto =
     (\<exists>Org. map_of pto Ptr = Some Org \<and> precedes m Ld Org)"
  by (auto simp: isLoadBeforeTaintOrigin_def precedes_def seen_at_iff dm_get_def
      split: option.splits)

subsection \<open>Properties\<close>

text \<open>
  C22: \<open>sameGEPPattern\<close> is equality of patterns: two \<open>getelementptr\<close> match exactly when they
  have the same element type, the same number of indices, constants in the same places and
  equal constants there.
\<close>

theorem same_gep_pattern:
  "sameGEPPattern m g1 g2 =
     (g1 \<noteq> nullptr \<and> g2 \<noteq> nullptr \<and> gep_pattern m g1 \<noteq> None \<and> gep_pattern m g1 = gep_pattern m g2)"
  by (rule sameGEPPattern_iff)

text \<open>
  \<open>isLoadBeforeTaintOrigin\<close>. A load counts as before the taint of a pointer exactly when
  the pointer has a recorded origin in the block of the load, at the load or after it.
\<close>

theorem load_before_origin:
  "isLoadBeforeTaintOrigin m Ld Ptr pto =
     (\<exists>Org. map_of pto Ptr = Some Org \<and> block_of_inst m Ld = block_of_inst m Org
        \<and> not_after (block_insts m (block_of_inst m Ld)) Ld Org)"
  by (simp add: isLoadBeforeTaintOrigin_iff precedes_def)

end
