(* ===== verification/Taint_State.thy ===== *)
theory Taint_State
  imports Patterns
begin

text \<open>
  The local variables of \<open>run\<close> as one record, the primitive updates the phases are made of,
  and the preorder \<open>grows\<close> in which every operation of the pass moves the state: taint is
  only added, only values of the module are added, a value enters the worklist only when it
  is newly tainted, and what was recorded of a tainted pointer or value stays as it was.

  The end of \<open>Worklist\<close> (\<open>push_back\<close>, \<open>pop_back_val\<close>) is the head of the list. The two
  loop flags \<open>changed\<close> and \<open>discoveredNewFunctions\<close> are fields. What goes to \<open>errs()\<close> is
  the list \<open>Log\<close>: the kind of line, the value it is about, and its text.
\<close>

datatype tag =
    CONFIG | VERBOSE | SOURCE | SOURCE_USE | SOURCE_RETURN | SOURCE_STORE | SOURCE_GLOBAL
  | SOURCE_PARAM | SOURCE_CALL | TRACK | FIELDS
  | PROCESS | NO_USE | CHILD | INTERPROC | INDIRECT | TARGET | EXTERNAL | RETURNED | GLOBAL
  | POINTER_PARAM | STORE_DEST | FLOWS | KILL | SKIP | LOADED | UPWARD | REPORT

datatype event = Ev (ev_tag: tag) (ev_value: addr) (ev_text: string)

record tstate =
  Worklist :: "addr list"
  TaintedValues :: "addr dset"
  TaintedPointers :: "addr dset"
  KilledStores :: "addr dset"
  FunctionsReturningTaint :: "addr dset"
  PointerTaintOrigin :: "(addr, addr) dmap"
  ValueLevel :: value_levels
  FunctionLevel :: function_levels
  FunctionsTaintingPointerParams :: "(addr, nat dset) dmap"
  FunctionParamFieldAccess :: "(addr, (nat, int list) dmap) dmap"
  FunctionPointerTargets :: "(addr, addr list) dmap"
  changed :: bool
  discoveredNewFunctions :: bool
  Log :: "event list"

definition init_state :: tstate where
  "init_state = \<lparr>Worklist = [], TaintedValues = [], TaintedPointers = [], KilledStores = [],
     FunctionsReturningTaint = [], PointerTaintOrigin = [], ValueLevel = [], FunctionLevel = [],
     FunctionsTaintingPointerParams = [], FunctionParamFieldAccess = [],
     FunctionPointerTargets = [], changed = False, discoveredNewFunctions = False, Log = []\<rparr>"

subsection \<open>Primitive updates\<close>

definition emit :: "tag \<Rightarrow> addr \<Rightarrow> string \<Rightarrow> tstate \<Rightarrow> tstate" where
  "emit t v txt s = s\<lparr>Log := Log s @ [Ev t v txt]\<rparr>"

definition emit_if :: "bool \<Rightarrow> tag \<Rightarrow> addr \<Rightarrow> string \<Rightarrow> tstate \<Rightarrow> tstate" where
  "emit_if c t v txt s = (if c then emit t v txt s else s)"

definition set_level :: "addr \<Rightarrow> int \<Rightarrow> tstate \<Rightarrow> tstate" where
  "set_level v l s = s\<lparr>ValueLevel := dm_set v l (ValueLevel s)\<rparr>"

definition set_flevel :: "addr \<Rightarrow> int \<Rightarrow> tstate \<Rightarrow> tstate" where
  "set_flevel f l s = s\<lparr>FunctionLevel := dm_set f l (FunctionLevel s)\<rparr>"

text \<open>\<open>TaintedValues.insert(v)\<close> followed by \<open>Worklist.push_back(v)\<close>, for a new \<open>v\<close>.\<close>

definition taint_push :: "addr \<Rightarrow> tstate \<Rightarrow> tstate" where
  "taint_push v s = s\<lparr>TaintedValues := ds_insert v (TaintedValues s), Worklist := v # Worklist s\<rparr>"

text \<open>\<open>TaintedPointers.insert(p)\<close> and \<open>PointerTaintOrigin[p] = origin\<close>, for a new \<open>p\<close>.\<close>

definition taint_pointer :: "addr \<Rightarrow> addr \<Rightarrow> tstate \<Rightarrow> tstate" where
  "taint_pointer p I s = s\<lparr>TaintedPointers := ds_insert p (TaintedPointers s),
     PointerTaintOrigin := dm_set p I (PointerTaintOrigin s)\<rparr>"

definition add_returning :: "addr \<Rightarrow> tstate \<Rightarrow> tstate" where
  "add_returning f s = s\<lparr>FunctionsReturningTaint := ds_insert f (FunctionsReturningTaint s)\<rparr>"

definition add_ptr_param :: "addr \<Rightarrow> nat \<Rightarrow> tstate \<Rightarrow> tstate" where
  "add_ptr_param f i s = s\<lparr>FunctionsTaintingPointerParams :=
     dm_set f (ds_insert i (dm_get [] (FunctionsTaintingPointerParams s) f))
       (FunctionsTaintingPointerParams s)\<rparr>"

definition ptr_param_known :: "tstate \<Rightarrow> addr \<Rightarrow> nat \<Rightarrow> bool" where
  "ptr_param_known s f i = ds_count (dm_get [] (FunctionsTaintingPointerParams s) f) i"

definition add_killed :: "addr \<Rightarrow> tstate \<Rightarrow> tstate" where
  "add_killed I s = s\<lparr>KilledStores := ds_insert I (KilledStores s)\<rparr>"

definition set_changed :: "bool \<Rightarrow> tstate \<Rightarrow> tstate" where
  "set_changed b s = s\<lparr>changed := b\<rparr>"

definition set_discovered :: "bool \<Rightarrow> tstate \<Rightarrow> tstate" where
  "set_discovered b s = s\<lparr>discoveredNewFunctions := b\<rparr>"

text \<open>
  The struct fields of a parameter: every index not yet known is appended.
\<close>

definition merge_fields :: "int list \<Rightarrow> int list \<Rightarrow> int list" where
  "merge_fields existing new = fold (\<lambda>i ex. if i \<in> set ex then ex else ex @ [i]) new existing"

definition add_fields :: "addr \<Rightarrow> nat \<Rightarrow> int list \<Rightarrow> tstate \<Rightarrow> tstate" where
  "add_fields f i ixs s = s\<lparr>FunctionParamFieldAccess :=
     (let funcMap = dm_get [] (FunctionParamFieldAccess s) f
      in dm_set f (dm_set i (merge_fields (dm_get [] funcMap i) ixs) funcMap)
           (FunctionParamFieldAccess s))\<rparr>"

text \<open>\<open>ensureLevelSet\<close>\<close>

definition ensureLevelSet :: "llmodule \<Rightarrow> addr \<Rightarrow> tstate \<Rightarrow> tstate" where
  "ensureLevelSet m I s =
     (if dm_count (ValueLevel s) I then s
      else if func_of_inst m I \<noteq> nullptr \<and> dm_count (FunctionLevel s) (func_of_inst m I)
      then set_level I (dm_get 0 (FunctionLevel s) (func_of_inst m I)) s
      else s)"

definition level :: "llmodule \<Rightarrow> tstate \<Rightarrow> addr \<Rightarrow> int" where
  "level m s V = getLevel m V (ValueLevel s) (FunctionLevel s)"

definition func_level :: "llmodule \<Rightarrow> tstate \<Rightarrow> addr \<Rightarrow> string" where
  "func_level m s I = getFuncLevel m I (ValueLevel s) (FunctionLevel s)"

definition func_level_v :: "llmodule \<Rightarrow> tstate \<Rightarrow> addr \<Rightarrow> string" where
  "func_level_v m s V = getFuncLevelForValue m V (ValueLevel s) (FunctionLevel s)"

lemmas primitive_defs =
  emit_def emit_if_def set_level_def set_flevel_def taint_push_def taint_pointer_def
  add_returning_def add_ptr_param_def add_killed_def set_changed_def set_discovered_def
  add_fields_def

lemma set_merge_fields: "set (merge_fields ex new) = set ex \<union> set new"
  by (induction new arbitrary: ex) (auto simp: merge_fields_def)

lemma distinct_merge_fields: "distinct ex \<Longrightarrow> distinct (merge_fields ex new)"
  by (induction new arbitrary: ex) (auto simp: merge_fields_def)

subsection \<open>The preorder of the pass\<close>

definition ptr_params :: "tstate \<Rightarrow> (addr \<times> nat) set" where
  "ptr_params s = {(f, i). i \<in> set (dm_get [] (FunctionsTaintingPointerParams s) f)}"

text \<open>
  What is left to do, as a number: the entries of the worklist and the values of the module
  that may still be tainted.
\<close>

definition potential :: "llmodule \<Rightarrow> tstate \<Rightarrow> nat" where
  "potential m s = length (Worklist s) + card (universe m - set (TaintedValues s))"

definition grows :: "llmodule \<Rightarrow> tstate \<Rightarrow> tstate \<Rightarrow> bool" where
  "grows m s t =
     (set (TaintedValues s) \<subseteq> set (TaintedValues t)
      \<and> set (TaintedValues t) \<subseteq> set (TaintedValues s) \<union> universe m
      \<and> set (TaintedPointers s) \<subseteq> set (TaintedPointers t)
      \<and> set (TaintedPointers t) \<subseteq> set (TaintedPointers s) \<union> universe m
      \<and> set (KilledStores s) \<subseteq> set (KilledStores t)
      \<and> set (FunctionsReturningTaint s) \<subseteq> set (FunctionsReturningTaint t)
      \<and> ptr_params s \<subseteq> ptr_params t
      \<and> potential m t \<le> potential m s
      \<and> set (Worklist t) \<subseteq> set (Worklist s) \<union> (set (TaintedValues t) - set (TaintedValues s))
      \<and> (\<forall>p \<in> set (TaintedPointers s).
           map_of (PointerTaintOrigin t) p = map_of (PointerTaintOrigin s) p)
      \<and> (\<forall>v \<in> set (TaintedValues s).
           map_of (ValueLevel s) v \<noteq> None \<longrightarrow> map_of (ValueLevel t) v = map_of (ValueLevel s) v))"

lemma growsD:
  assumes "grows m s t"
  shows "set (TaintedValues s) \<subseteq> set (TaintedValues t)"
    and "set (TaintedValues t) \<subseteq> set (TaintedValues s) \<union> universe m"
    and "set (TaintedPointers s) \<subseteq> set (TaintedPointers t)"
    and "set (TaintedPointers t) \<subseteq> set (TaintedPointers s) \<union> universe m"
    and "set (KilledStores s) \<subseteq> set (KilledStores t)"
    and "set (FunctionsReturningTaint s) \<subseteq> set (FunctionsReturningTaint t)"
    and "ptr_params s \<subseteq> ptr_params t"
    and "potential m t \<le> potential m s"
    and "set (Worklist t) \<subseteq> set (Worklist s) \<union> (set (TaintedValues t) - set (TaintedValues s))"
  by (insert assms, unfold grows_def, (elim conjE, assumption)+)

lemma grows_origin:
  "grows m s t \<Longrightarrow> p \<in> set (TaintedPointers s) \<Longrightarrow>
     map_of (PointerTaintOrigin t) p = map_of (PointerTaintOrigin s) p"
  unfolding grows_def by (elim conjE) (erule (1) bspec)

lemma grows_level:
  "grows m s t \<Longrightarrow> v \<in> set (TaintedValues s) \<Longrightarrow> map_of (ValueLevel s) v = Some l \<Longrightarrow>
     map_of (ValueLevel t) v = Some l"
  unfolding grows_def by (elim conjE) (drule (1) bspec, simp)

lemma grows_refl [simp, intro]: "grows m s s"
  by (simp add: grows_def)

lemma grows_trans [trans]:
  assumes "grows m s t" "grows m t u"
  shows "grows m s u"
proof -
  note a = growsD[OF assms(1)] and b = growsD[OF assms(2)]
  have "potential m u \<le> potential m s"
    using a(8) b(8) by simp
  moreover have "map_of (PointerTaintOrigin u) p = map_of (PointerTaintOrigin s) p"
    if "p \<in> set (TaintedPointers s)" for p
    using a(3) that grows_origin[OF assms(1)] grows_origin[OF assms(2)] by (simp add: subset_iff)
  moreover have "map_of (ValueLevel u) v = map_of (ValueLevel s) v"
    if "v \<in> set (TaintedValues s)" "map_of (ValueLevel s) v \<noteq> None" for v
    using a(1) that grows_level[OF assms(1)] grows_level[OF assms(2)] by (auto simp: subset_iff)
  moreover have "set (Worklist u) \<subseteq> set (Worklist s) \<union> (set (TaintedValues u) - set (TaintedValues s))"
    using a(1,9) b(1,9) by blast
  moreover have "set (TaintedValues u) \<subseteq> set (TaintedValues s) \<union> universe m"
    "set (TaintedPointers u) \<subseteq> set (TaintedPointers s) \<union> universe m"
    using a(2,4) b(2,4) by blast+
  moreover note subset_trans[OF a(1) b(1)] subset_trans[OF a(3) b(3)] subset_trans[OF a(5) b(5)]
    subset_trans[OF a(6) b(6)] subset_trans[OF a(7) b(7)]
  ultimately show ?thesis
    unfolding grows_def by (intro conjI ballI impI)
qed

text \<open>Operations that touch no field of the preorder.\<close>

lemma grows_same:
  assumes "Worklist t = Worklist s" "TaintedValues t = TaintedValues s"
    "TaintedPointers t = TaintedPointers s" "KilledStores t = KilledStores s"
    "FunctionsReturningTaint t = FunctionsReturningTaint s"
    "FunctionsTaintingPointerParams t = FunctionsTaintingPointerParams s"
    "PointerTaintOrigin t = PointerTaintOrigin s" "ValueLevel t = ValueLevel s"
  shows "grows m s t"
  using assms by (simp add: grows_def ptr_params_def potential_def)

subsection \<open>Fields left alone\<close>

lemma emit_fields [simp]:
  "Worklist (emit t v txt s) = Worklist s"
  "TaintedValues (emit t v txt s) = TaintedValues s"
  "TaintedPointers (emit t v txt s) = TaintedPointers s"
  "KilledStores (emit t v txt s) = KilledStores s"
  "FunctionsReturningTaint (emit t v txt s) = FunctionsReturningTaint s"
  "PointerTaintOrigin (emit t v txt s) = PointerTaintOrigin s"
  "ValueLevel (emit t v txt s) = ValueLevel s"
  "FunctionLevel (emit t v txt s) = FunctionLevel s"
  "FunctionsTaintingPointerParams (emit t v txt s) = FunctionsTaintingPointerParams s"
  "FunctionParamFieldAccess (emit t v txt s) = FunctionParamFieldAccess s"
  "FunctionPointerTargets (emit t v txt s) = FunctionPointerTargets s"
  "changed (emit t v txt s) = changed s"
  "discoveredNewFunctions (emit t v txt s) = discoveredNewFunctions s"
  by (simp_all add: primitive_defs)

lemma emit_if_fields [simp]:
  "Worklist (emit_if c t v txt s) = Worklist s"
  "TaintedValues (emit_if c t v txt s) = TaintedValues s"
  "TaintedPointers (emit_if c t v txt s) = TaintedPointers s"
  "KilledStores (emit_if c t v txt s) = KilledStores s"
  "FunctionsReturningTaint (emit_if c t v txt s) = FunctionsReturningTaint s"
  "PointerTaintOrigin (emit_if c t v txt s) = PointerTaintOrigin s"
  "ValueLevel (emit_if c t v txt s) = ValueLevel s"
  "FunctionLevel (emit_if c t v txt s) = FunctionLevel s"
  "FunctionsTaintingPointerParams (emit_if c t v txt s) = FunctionsTaintingPointerParams s"
  "FunctionParamFieldAccess (emit_if c t v txt s) = FunctionParamFieldAccess s"
  "FunctionPointerTargets (emit_if c t v txt s) = FunctionPointerTargets s"
  "changed (emit_if c t v txt s) = changed s"
  "discoveredNewFunctions (emit_if c t v txt s) = discoveredNewFunctions s"
  by (simp_all add: primitive_defs)

lemma set_level_fields [simp]:
  "Worklist (set_level v l s) = Worklist s"
  "TaintedValues (set_level v l s) = TaintedValues s"
  "TaintedPointers (set_level v l s) = TaintedPointers s"
  "KilledStores (set_level v l s) = KilledStores s"
  "FunctionsReturningTaint (set_level v l s) = FunctionsReturningTaint s"
  "PointerTaintOrigin (set_level v l s) = PointerTaintOrigin s"
  "ValueLevel (set_level v l s) = dm_set v l (ValueLevel s)"
  "FunctionLevel (set_level v l s) = FunctionLevel s"
  "FunctionsTaintingPointerParams (set_level v l s) = FunctionsTaintingPointerParams s"
  "FunctionParamFieldAccess (set_level v l s) = FunctionParamFieldAccess s"
  "FunctionPointerTargets (set_level v l s) = FunctionPointerTargets s"
  "changed (set_level v l s) = changed s"
  "discoveredNewFunctions (set_level v l s) = discoveredNewFunctions s"
  by (simp_all add: primitive_defs)

lemma set_flevel_fields [simp]:
  "Worklist (set_flevel f l s) = Worklist s"
  "TaintedValues (set_flevel f l s) = TaintedValues s"
  "TaintedPointers (set_flevel f l s) = TaintedPointers s"
  "KilledStores (set_flevel f l s) = KilledStores s"
  "FunctionsReturningTaint (set_flevel f l s) = FunctionsReturningTaint s"
  "PointerTaintOrigin (set_flevel f l s) = PointerTaintOrigin s"
  "ValueLevel (set_flevel f l s) = ValueLevel s"
  "FunctionLevel (set_flevel f l s) = dm_set f l (FunctionLevel s)"
  "FunctionsTaintingPointerParams (set_flevel f l s) = FunctionsTaintingPointerParams s"
  "FunctionParamFieldAccess (set_flevel f l s) = FunctionParamFieldAccess s"
  "FunctionPointerTargets (set_flevel f l s) = FunctionPointerTargets s"
  "changed (set_flevel f l s) = changed s"
  "discoveredNewFunctions (set_flevel f l s) = discoveredNewFunctions s"
  by (simp_all add: primitive_defs)

lemma taint_push_fields [simp]:
  "Worklist (taint_push v s) = v # Worklist s"
  "TaintedValues (taint_push v s) = ds_insert v (TaintedValues s)"
  "TaintedPointers (taint_push v s) = TaintedPointers s"
  "KilledStores (taint_push v s) = KilledStores s"
  "FunctionsReturningTaint (taint_push v s) = FunctionsReturningTaint s"
  "PointerTaintOrigin (taint_push v s) = PointerTaintOrigin s"
  "ValueLevel (taint_push v s) = ValueLevel s"
  "FunctionLevel (taint_push v s) = FunctionLevel s"
  "FunctionsTaintingPointerParams (taint_push v s) = FunctionsTaintingPointerParams s"
  "FunctionParamFieldAccess (taint_push v s) = FunctionParamFieldAccess s"
  "FunctionPointerTargets (taint_push v s) = FunctionPointerTargets s"
  "changed (taint_push v s) = changed s"
  "discoveredNewFunctions (taint_push v s) = discoveredNewFunctions s"
  by (simp_all add: primitive_defs)

lemma taint_pointer_fields [simp]:
  "Worklist (taint_pointer p I s) = Worklist s"
  "TaintedValues (taint_pointer p I s) = TaintedValues s"
  "TaintedPointers (taint_pointer p I s) = ds_insert p (TaintedPointers s)"
  "KilledStores (taint_pointer p I s) = KilledStores s"
  "FunctionsReturningTaint (taint_pointer p I s) = FunctionsReturningTaint s"
  "PointerTaintOrigin (taint_pointer p I s) = dm_set p I (PointerTaintOrigin s)"
  "ValueLevel (taint_pointer p I s) = ValueLevel s"
  "FunctionLevel (taint_pointer p I s) = FunctionLevel s"
  "FunctionsTaintingPointerParams (taint_pointer p I s) = FunctionsTaintingPointerParams s"
  "FunctionParamFieldAccess (taint_pointer p I s) = FunctionParamFieldAccess s"
  "FunctionPointerTargets (taint_pointer p I s) = FunctionPointerTargets s"
  "changed (taint_pointer p I s) = changed s"
  "discoveredNewFunctions (taint_pointer p I s) = discoveredNewFunctions s"
  by (simp_all add: primitive_defs)

lemma add_returning_fields [simp]:
  "Worklist (add_returning f s) = Worklist s"
  "TaintedValues (add_returning f s) = TaintedValues s"
  "TaintedPointers (add_returning f s) = TaintedPointers s"
  "KilledStores (add_returning f s) = KilledStores s"
  "FunctionsReturningTaint (add_returning f s) = ds_insert f (FunctionsReturningTaint s)"
  "PointerTaintOrigin (add_returning f s) = PointerTaintOrigin s"
  "ValueLevel (add_returning f s) = ValueLevel s"
  "FunctionLevel (add_returning f s) = FunctionLevel s"
  "FunctionsTaintingPointerParams (add_returning f s) = FunctionsTaintingPointerParams s"
  "FunctionParamFieldAccess (add_returning f s) = FunctionParamFieldAccess s"
  "FunctionPointerTargets (add_returning f s) = FunctionPointerTargets s"
  "changed (add_returning f s) = changed s"
  "discoveredNewFunctions (add_returning f s) = discoveredNewFunctions s"
  by (simp_all add: primitive_defs)

lemma add_ptr_param_fields [simp]:
  "Worklist (add_ptr_param f i s) = Worklist s"
  "TaintedValues (add_ptr_param f i s) = TaintedValues s"
  "TaintedPointers (add_ptr_param f i s) = TaintedPointers s"
  "KilledStores (add_ptr_param f i s) = KilledStores s"
  "FunctionsReturningTaint (add_ptr_param f i s) = FunctionsReturningTaint s"
  "PointerTaintOrigin (add_ptr_param f i s) = PointerTaintOrigin s"
  "ValueLevel (add_ptr_param f i s) = ValueLevel s"
  "FunctionLevel (add_ptr_param f i s) = FunctionLevel s"
  "FunctionParamFieldAccess (add_ptr_param f i s) = FunctionParamFieldAccess s"
  "FunctionPointerTargets (add_ptr_param f i s) = FunctionPointerTargets s"
  "changed (add_ptr_param f i s) = changed s"
  "discoveredNewFunctions (add_ptr_param f i s) = discoveredNewFunctions s"
  by (simp_all add: primitive_defs)

lemma add_fields_fields [simp]:
  "Worklist (add_fields f i ixs s) = Worklist s"
  "TaintedValues (add_fields f i ixs s) = TaintedValues s"
  "TaintedPointers (add_fields f i ixs s) = TaintedPointers s"
  "KilledStores (add_fields f i ixs s) = KilledStores s"
  "FunctionsReturningTaint (add_fields f i ixs s) = FunctionsReturningTaint s"
  "PointerTaintOrigin (add_fields f i ixs s) = PointerTaintOrigin s"
  "ValueLevel (add_fields f i ixs s) = ValueLevel s"
  "FunctionLevel (add_fields f i ixs s) = FunctionLevel s"
  "FunctionsTaintingPointerParams (add_fields f i ixs s) = FunctionsTaintingPointerParams s"
  "FunctionPointerTargets (add_fields f i ixs s) = FunctionPointerTargets s"
  "changed (add_fields f i ixs s) = changed s"
  "discoveredNewFunctions (add_fields f i ixs s) = discoveredNewFunctions s"
  by (simp_all add: primitive_defs)

lemma add_killed_fields [simp]:
  "Worklist (add_killed I s) = Worklist s"
  "TaintedValues (add_killed I s) = TaintedValues s"
  "TaintedPointers (add_killed I s) = TaintedPointers s"
  "KilledStores (add_killed I s) = ds_insert I (KilledStores s)"
  "FunctionsReturningTaint (add_killed I s) = FunctionsReturningTaint s"
  "PointerTaintOrigin (add_killed I s) = PointerTaintOrigin s"
  "ValueLevel (add_killed I s) = ValueLevel s"
  "FunctionLevel (add_killed I s) = FunctionLevel s"
  "FunctionsTaintingPointerParams (add_killed I s) = FunctionsTaintingPointerParams s"
  "FunctionParamFieldAccess (add_killed I s) = FunctionParamFieldAccess s"
  "FunctionPointerTargets (add_killed I s) = FunctionPointerTargets s"
  "changed (add_killed I s) = changed s"
  "discoveredNewFunctions (add_killed I s) = discoveredNewFunctions s"
  by (simp_all add: primitive_defs)

lemma set_changed_fields [simp]:
  "Worklist (set_changed b s) = Worklist s"
  "TaintedValues (set_changed b s) = TaintedValues s"
  "TaintedPointers (set_changed b s) = TaintedPointers s"
  "KilledStores (set_changed b s) = KilledStores s"
  "FunctionsReturningTaint (set_changed b s) = FunctionsReturningTaint s"
  "PointerTaintOrigin (set_changed b s) = PointerTaintOrigin s"
  "ValueLevel (set_changed b s) = ValueLevel s"
  "FunctionLevel (set_changed b s) = FunctionLevel s"
  "FunctionsTaintingPointerParams (set_changed b s) = FunctionsTaintingPointerParams s"
  "FunctionParamFieldAccess (set_changed b s) = FunctionParamFieldAccess s"
  "FunctionPointerTargets (set_changed b s) = FunctionPointerTargets s"
  "changed (set_changed b s) = b"
  "discoveredNewFunctions (set_changed b s) = discoveredNewFunctions s"
  by (simp_all add: primitive_defs)

lemma set_discovered_fields [simp]:
  "Worklist (set_discovered b s) = Worklist s"
  "TaintedValues (set_discovered b s) = TaintedValues s"
  "TaintedPointers (set_discovered b s) = TaintedPointers s"
  "KilledStores (set_discovered b s) = KilledStores s"
  "FunctionsReturningTaint (set_discovered b s) = FunctionsReturningTaint s"
  "PointerTaintOrigin (set_discovered b s) = PointerTaintOrigin s"
  "ValueLevel (set_discovered b s) = ValueLevel s"
  "FunctionLevel (set_discovered b s) = FunctionLevel s"
  "FunctionsTaintingPointerParams (set_discovered b s) = FunctionsTaintingPointerParams s"
  "FunctionParamFieldAccess (set_discovered b s) = FunctionParamFieldAccess s"
  "FunctionPointerTargets (set_discovered b s) = FunctionPointerTargets s"
  "changed (set_discovered b s) = changed s"
  "discoveredNewFunctions (set_discovered b s) = b"
  by (simp_all add: primitive_defs)

lemma ensureLevelSet_fields [simp]:
  "Worklist (ensureLevelSet m I s) = Worklist s"
  "TaintedValues (ensureLevelSet m I s) = TaintedValues s"
  "TaintedPointers (ensureLevelSet m I s) = TaintedPointers s"
  "KilledStores (ensureLevelSet m I s) = KilledStores s"
  "FunctionsReturningTaint (ensureLevelSet m I s) = FunctionsReturningTaint s"
  "PointerTaintOrigin (ensureLevelSet m I s) = PointerTaintOrigin s"
  "FunctionLevel (ensureLevelSet m I s) = FunctionLevel s"
  "FunctionsTaintingPointerParams (ensureLevelSet m I s) = FunctionsTaintingPointerParams s"
  "FunctionParamFieldAccess (ensureLevelSet m I s) = FunctionParamFieldAccess s"
  "FunctionPointerTargets (ensureLevelSet m I s) = FunctionPointerTargets s"
  "changed (ensureLevelSet m I s) = changed s"
  "discoveredNewFunctions (ensureLevelSet m I s) = discoveredNewFunctions s"
  by (simp_all add: ensureLevelSet_def)

lemma ptr_params_add [simp]: "ptr_params (add_ptr_param f i s) = insert (f, i) (ptr_params s)"
  by (auto simp: ptr_params_def add_ptr_param_def split: if_splits)

lemma ptr_params_same [simp]:
  "ptr_params (emit t v txt s) = ptr_params s" "ptr_params (emit_if c t v txt s) = ptr_params s"
  "ptr_params (set_level v l s) = ptr_params s" "ptr_params (set_flevel f l s) = ptr_params s"
  "ptr_params (taint_push v s) = ptr_params s" "ptr_params (taint_pointer p I s) = ptr_params s"
  "ptr_params (add_returning f s) = ptr_params s" "ptr_params (add_killed I s) = ptr_params s"
  "ptr_params (add_fields f i ixs s) = ptr_params s" "ptr_params (set_changed b s) = ptr_params s"
  "ptr_params (set_discovered b s) = ptr_params s"
  "ptr_params (ensureLevelSet m I s) = ptr_params s"
  by (simp_all add: ptr_params_def)

lemma ptr_param_known_iff [simp]: "ptr_param_known s f i = ((f, i) \<in> ptr_params s)"
  by (simp add: ptr_param_known_def ptr_params_def)

subsection \<open>The primitives grow the state\<close>

text \<open>
  Each rule has the state before as a variable, so that applied backwards they take a
  composition of primitives apart.
\<close>

lemma grows_then: "grows m x (f x) \<Longrightarrow> grows m s x \<Longrightarrow> grows m s (f x)"
  by (rule grows_trans)

lemma grows_emit [grow_intros]:
  "grows m s x \<Longrightarrow> grows m s (emit t v txt x)"
  "grows m s x \<Longrightarrow> grows m s (emit_if c t v txt x)"
  "grows m s x \<Longrightarrow> grows m s (set_flevel f l x)"
  "grows m s x \<Longrightarrow> grows m s (set_changed b x)"
  "grows m s x \<Longrightarrow> grows m s (set_discovered b x)"
  "grows m s x \<Longrightarrow> grows m s (add_fields f i ixs x)"
  by (erule grows_trans, rule grows_same; simp)+

lemma grows_set_level [grow_intros]:
  "grows m s x \<Longrightarrow> v \<notin> set (TaintedValues x) \<or> map_of (ValueLevel x) v = None \<Longrightarrow>
     grows m s (set_level v l x)"
  by (erule grows_trans) (auto simp: grows_def ptr_params_def potential_def)

lemma grows_ensureLevelSet [grow_intros]: "grows m s x \<Longrightarrow> grows m s (ensureLevelSet m' I x)"
  by (auto simp: ensureLevelSet_def dom_def intro!: grows_set_level)

lemma card_taint:
  "v \<in> universe m \<Longrightarrow> v \<notin> X \<Longrightarrow> Suc (card (universe m - insert v X)) = card (universe m - X)"
  by (metis Diff_iff Diff_insert card_Suc_Diff1 finite_universe_diff)

lemma grows_taint_push [grow_intros]:
  "grows m s x \<Longrightarrow> v \<in> universe m \<Longrightarrow> v \<notin> set (TaintedValues x) \<Longrightarrow> grows m s (taint_push v x)"
  using card_taint[of v m "set (TaintedValues x)"]
  by (elim grows_trans) (auto simp: grows_def ptr_params_def potential_def)

lemma grows_taint_pointer [grow_intros]:
  "grows m s x \<Longrightarrow> p \<in> universe m \<Longrightarrow> p \<notin> set (TaintedPointers x) \<Longrightarrow>
     grows m s (taint_pointer p I x)"
  by (erule grows_trans) (auto simp: grows_def ptr_params_def potential_def)

lemma grows_add [grow_intros]:
  "grows m s x \<Longrightarrow> grows m s (add_returning f x)"
  "grows m s x \<Longrightarrow> grows m s (add_killed I x)"
  by (erule grows_trans, auto simp: grows_def ptr_params_def potential_def)+

lemma grows_add_ptr_param [grow_intros]:
  "grows m s x \<Longrightarrow> grows m s (add_ptr_param f i x)"
  by (erule grows_trans) (auto simp: grows_def potential_def)

end
