(* ===== verification/Stores.thy ===== *)
theory Stores
  imports Taint_State
begin

text \<open>
  A tainted value that is stored: the printed search for a parameter behind a
  \<open>getelementptr\<close>, the record of the struct fields written, and \<open>processStoreForTaint\<close>,
  which the upward phase uses for every store it reaches.
\<close>

definition result_text :: "llmodule \<Rightarrow> addr \<Rightarrow> string" where
  "result_text m P = arrow @ '' Result: '' @
     (if P \<noteq> nullptr
      then ''Connects to parameter #'' @ show_nat (arg_no m P) @ '' ('' @ getValueName m P @ '')''
      else ''No parameter connection found'')"

text \<open>Print the search for the parameter behind a pointer operand that is a GEP.\<close>

definition track_gep :: "llmodule \<Rightarrow> addr \<Rightarrow> tstate \<Rightarrow> tstate" where
  "track_gep m p s =
     (case as_gep m p of
        None \<Rightarrow> s
      | Some g \<Rightarrow>
          (case trackedPointerParameterOrigin m p of
             (Param, out) \<Rightarrow>
               emit TRACK p (''  '' @ result_text m Param) (emit TRACK p out s)))"

definition fields_text :: "int list \<Rightarrow> string" where
  "fields_text ixs = ''  [POINTER PARAMETER] Accessed struct field(s): ''
     @ join_with '', '' (map show_int ixs)"

definition record_fields :: "addr \<Rightarrow> nat \<Rightarrow> int list \<Rightarrow> tstate \<Rightarrow> tstate" where
  "record_fields F ParamIdx fieldIndices s =
     (if fieldIndices \<noteq> []
      then emit FIELDS F (fields_text fieldIndices) (add_fields F ParamIdx fieldIndices s)
      else s)"

definition processStoreForTaint ::
    "pass_params \<Rightarrow> llmodule \<Rightarrow> addr \<Rightarrow> addr \<Rightarrow> tstate \<Rightarrow> tstate \<times> bool" where
  "processStoreForTaint cfg m S V s =
     (case as_store m S of
        None \<Rightarrow> (s, False)
      | Some (val, ptr) \<Rightarrow>
          if val \<noteq> V then (s, False)
          else
            let Ptr = strip m ptr;
                s1 = (if \<not> ds_count (TaintedPointers s) Ptr
                      then emit STORE_DEST Ptr (''  [STORE DESTINATION] Marking pointer as tainted: ''
                             @ getValueName m Ptr @ getDebugLoc cfg m S @ func_level m s S)
                           (taint_pointer Ptr S s)
                      else s);
                PtrParam = getPointerParameterOrigin m ptr;
                F = func_of_inst m S;
                ParamIdx = arg_no m PtrParam
            in if PtrParam \<noteq> nullptr then
                 (if F \<noteq> nullptr then
                    (record_fields F ParamIdx (extractStructFieldIndices m ptr)
                      (add_ptr_param F ParamIdx
                        (emit POINTER_PARAM S
                          (''  [POINTER PARAMETER] Tainted value stored through pointer parameter #''
                           @ show_nat ParamIdx @ '' ('' @ getValueName m PtrParam @ '')''
                           @ getDebugLoc cfg m S @ func_level m s1 S) s1)),
                     \<not> ptr_param_known s1 F ParamIdx)
                  else (s1, False))
               else (track_gep m ptr s1, False))"

lemma track_gep_fields [simp]:
  "Worklist (track_gep m p s) = Worklist s"
  "TaintedValues (track_gep m p s) = TaintedValues s"
  "TaintedPointers (track_gep m p s) = TaintedPointers s"
  "KilledStores (track_gep m p s) = KilledStores s"
  "FunctionsReturningTaint (track_gep m p s) = FunctionsReturningTaint s"
  "PointerTaintOrigin (track_gep m p s) = PointerTaintOrigin s"
  "ValueLevel (track_gep m p s) = ValueLevel s"
  "FunctionLevel (track_gep m p s) = FunctionLevel s"
  "FunctionsTaintingPointerParams (track_gep m p s) = FunctionsTaintingPointerParams s"
  "changed (track_gep m p s) = changed s"
  "discoveredNewFunctions (track_gep m p s) = discoveredNewFunctions s"
  by (simp_all add: track_gep_def split: option.split prod.split)

lemma record_fields_fields [simp]:
  "Worklist (record_fields F i ixs s) = Worklist s"
  "TaintedValues (record_fields F i ixs s) = TaintedValues s"
  "TaintedPointers (record_fields F i ixs s) = TaintedPointers s"
  "KilledStores (record_fields F i ixs s) = KilledStores s"
  "FunctionsReturningTaint (record_fields F i ixs s) = FunctionsReturningTaint s"
  "PointerTaintOrigin (record_fields F i ixs s) = PointerTaintOrigin s"
  "ValueLevel (record_fields F i ixs s) = ValueLevel s"
  "FunctionLevel (record_fields F i ixs s) = FunctionLevel s"
  "FunctionsTaintingPointerParams (record_fields F i ixs s) = FunctionsTaintingPointerParams s"
  "changed (record_fields F i ixs s) = changed s"
  "discoveredNewFunctions (record_fields F i ixs s) = discoveredNewFunctions s"
  by (simp_all add: record_fields_def)

lemma ptr_params_track [simp]:
  "ptr_params (track_gep m p s) = ptr_params s"
  "ptr_params (record_fields F i ixs s) = ptr_params s"
  by (simp_all add: ptr_params_def)

lemma grows_track_gep [grow_intros]: "grows m s x \<Longrightarrow> grows m s (track_gep m' p x)"
  by (erule grows_trans) (rule grows_same; simp)

lemma grows_record_fields [grow_intros]: "grows m s x \<Longrightarrow> grows m s (record_fields F i ixs x)"
  by (erule grows_trans) (rule grows_same; simp)

lemma grows_processStoreForTaint [grow_intros]:
  "grows m s x \<Longrightarrow> grows m s (fst (processStoreForTaint cfg m S V x))"
  by (elim grows_trans)
    (auto simp: processStoreForTaint_def Let_def dest: store_universe
      split: option.split intro!: grow_intros)

lemma processStore_fields [simp]:
  "Worklist (fst (processStoreForTaint cfg m S V s)) = Worklist s"
  "TaintedValues (fst (processStoreForTaint cfg m S V s)) = TaintedValues s"
  "KilledStores (fst (processStoreForTaint cfg m S V s)) = KilledStores s"
  "FunctionsReturningTaint (fst (processStoreForTaint cfg m S V s)) = FunctionsReturningTaint s"
  "ValueLevel (fst (processStoreForTaint cfg m S V s)) = ValueLevel s"
  "FunctionLevel (fst (processStoreForTaint cfg m S V s)) = FunctionLevel s"
  by (simp_all add: processStoreForTaint_def Let_def split: option.split prod.split)

text \<open>
  The result says exactly whether a (function, parameter) pair was added, and the pointer
  operand of a store of \<open>V\<close> is tainted afterwards.
\<close>

lemma processStore_new:
  "snd (processStoreForTaint cfg m S V s) =
     (ptr_params (fst (processStoreForTaint cfg m S V s)) \<noteq> ptr_params s)"
  by (auto simp: processStoreForTaint_def Let_def split: option.split)

lemma processStore_taints_pointer:
  "as_store m S = Some (V, ptr) \<Longrightarrow>
     TaintedPointers (fst (processStoreForTaint cfg m S V s)) =
       ds_insert (strip m ptr) (TaintedPointers s)"
  by (auto simp: processStoreForTaint_def Let_def ds_insert_def)

lemma processStore_ptr_params:
  "ptr_params (fst (processStoreForTaint cfg m S V s)) = ptr_params s \<union>
     (case as_store m S of
        Some (v, ptr) \<Rightarrow>
          if v = V \<and> getPointerParameterOrigin m ptr \<noteq> nullptr \<and> func_of_inst m S \<noteq> nullptr
          then {(func_of_inst m S, arg_no m (getPointerParameterOrigin m ptr))} else {}
      | None \<Rightarrow> {})"
  by (simp add: processStoreForTaint_def Let_def split: option.split)

subsection \<open>Properties\<close>

text \<open>
  C31: \<open>processStoreForTaint\<close>. A store of another value, or no store, changes nothing. A store
  of the value taints the pointer operand without its casts, records the (function, parameter)
  pair exactly when the pointer comes from a parameter, and returns whether that pair is new.
\<close>

theorem process_store:
  "case as_store m S of
     None \<Rightarrow> processStoreForTaint cfg m S V s = (s, False)
   | Some (v, ptr) \<Rightarrow>
       if v \<noteq> V then processStoreForTaint cfg m S V s = (s, False)
       else set (TaintedPointers (fst (processStoreForTaint cfg m S V s))) =
              insert (strip m ptr) (set (TaintedPointers s))
          \<and> ptr_params (fst (processStoreForTaint cfg m S V s)) = ptr_params s \<union>
              (if getPointerParameterOrigin m ptr \<noteq> nullptr \<and> func_of_inst m S \<noteq> nullptr
               then {(func_of_inst m S, arg_no m (getPointerParameterOrigin m ptr))} else {})
          \<and> (snd (processStoreForTaint cfg m S V s) \<longleftrightarrow>
              ptr_params (fst (processStoreForTaint cfg m S V s)) \<noteq> ptr_params s)"
proof (cases "as_store m S")
  case None
  then show ?thesis by (simp add: processStoreForTaint_def)
next
  case (Some vp)
  obtain v ptr where vp: "vp = (v, ptr)" by fastforce
  show ?thesis
  proof (cases "v = V")
    case True
    then show ?thesis
      unfolding processStore_new processStore_ptr_params by (simp add: Some vp processStore_taints_pointer)
  qed (simp add: Some vp processStoreForTaint_def)
qed

lemma process_store_witness:
  "snd (processStoreForTaint ex_cfg ex_params 11 3 init_state)
   \<and> ptr_params (fst (processStoreForTaint ex_cfg ex_params 11 3 init_state)) = {(1, 0)}"
proof -
  have "as_store ex_params 11 = Some (3, 5)" "getPointerParameterOrigin ex_params 5 = 5"
    "func_of_inst ex_params 11 = 1" "arg_no ex_params 5 = 0" by code_simp+
  moreover have "ptr_params init_state = {}" by (simp add: ptr_params_def init_state_def dm_get_def)
  ultimately show ?thesis
    using process_store[where m = ex_params and S = 11 and cfg = ex_cfg and V = 3 and s = init_state]
    by simp
qed

end
