(* ===== verification/Load_Scan.thy ===== *)
theory Load_Scan
  imports Stores
begin

text \<open>
  \<open>scanLoadsFromTaintedPointers\<close>: every load of the module whose stripped pointer operand is
  one of the given pointers, or a \<open>getelementptr\<close> based on one, becomes tainted, unless it
  stands after a store that killed the pointer or before the instruction that tainted it.
\<close>

text \<open>A load directly from \<open>Ptr\<close>, or from a field of the struct at \<open>Ptr\<close>.\<close>

definition direct_load :: "llmodule \<Rightarrow> addr \<Rightarrow> addr \<Rightarrow> bool" where
  "direct_load m LoadPtr Ptr = (LoadPtr = Ptr)"

definition field_load :: "llmodule \<Rightarrow> addr \<Rightarrow> addr \<Rightarrow> bool" where
  "field_load m LoadPtr Ptr = (LoadPtr \<noteq> Ptr \<and>
     (case as_gep m LoadPtr of Some (p, t, is) \<Rightarrow> strip m p = Ptr | None \<Rightarrow> False))"

text \<open>The stripped pointer operand of a store (\<open>cast<StoreInst>\<close>).\<close>

definition store_pointer :: "llmodule \<Rightarrow> addr \<Rightarrow> addr" where
  "store_pointer m S = (case as_store m S of Some (v, p) \<Rightarrow> strip m p | None \<Rightarrow> nullptr)"

definition after_kill :: "llmodule \<Rightarrow> addr dset \<Rightarrow> addr \<Rightarrow> addr \<Rightarrow> bool" where
  "after_kill m Kills CheckPtr Ld =
     list_ex (\<lambda>KillStore. store_pointer m KillStore = CheckPtr
         \<and> block_of_inst m Ld = block_of_inst m KillStore
         \<and> seen_at False KillStore Ld (block_insts m (block_of_inst m Ld)))
       (sort Kills)"

definition load_text ::
    "pass_params \<Rightarrow> llmodule \<Rightarrow> bool \<Rightarrow> addr \<Rightarrow> addr \<Rightarrow> tstate \<Rightarrow> string" where
  "load_text cfg m isStructField Ptr Ld s =
     (if isStructField
      then ''[LOAD] Tainted load from tracked pointer (struct field): '' @ getValueName m Ld
           @ '' (base: '' @ getValueName m Ptr @ '') ''
      else ''[LOAD] Tainted load from tracked pointer: '' @ getValueName m Ld
           @ '' ('' @ printed (vinfo_of m Ptr) @ '') '')
     @ getDebugLoc cfg m Ld @ func_level m s Ld"

definition skip_text :: "pass_params \<Rightarrow> llmodule \<Rightarrow> string \<Rightarrow> addr \<Rightarrow> tstate \<Rightarrow> string" where
  "skip_text cfg m why Ld s = ''[SKIP] Load '' @ why @ '', not tainting: '' @ getValueName m Ld
     @ getDebugLoc cfg m Ld @ func_level m s Ld"

text \<open>
  One instruction of the module against one pointer. \<open>Kills\<close> is the optional argument
  of the C++ function; the flag is its local \<open>changed\<close>.
\<close>

fun scan_load :: "pass_params \<Rightarrow> llmodule \<Rightarrow> addr dset option \<Rightarrow> addr \<Rightarrow> addr
    \<Rightarrow> tstate \<times> bool \<Rightarrow> tstate \<times> bool" where
  "scan_load cfg m Kills Ptr I (s, ch) =
     (case as_load m I of
        None \<Rightarrow> (s, ch)
      | Some lp \<Rightarrow>
          let LoadPtr = strip m lp;
              isStructField = field_load m LoadPtr Ptr;
              s1 = ensureLevelSet m I s
          in if \<not> (direct_load m LoadPtr Ptr \<or> isStructField) then (s, ch)
             else if ds_count (TaintedValues s) I then (s, ch)
             else if (case Kills of Some ks \<Rightarrow> after_kill m ks Ptr I | None \<Rightarrow> False)
             then (emit SKIP I (skip_text cfg m ''after kill'' I s1) s1, ch)
             else if isLoadBeforeTaintOrigin m I Ptr (PointerTaintOrigin s)
             then (emit SKIP I (skip_text cfg m ''before taint origin'' I s1) s1, ch)
             else (taint_push I (emit LOADED I (load_text cfg m isStructField Ptr I s1) s1), True))"

definition scan_pointer :: "pass_params \<Rightarrow> llmodule \<Rightarrow> addr dset option \<Rightarrow> addr
    \<Rightarrow> tstate \<times> bool \<Rightarrow> tstate \<times> bool" where
  "scan_pointer cfg m Kills Ptr sc = fold (scan_load cfg m Kills Ptr) (all_insts m) sc"

definition scanLoadsFromTaintedPointers :: "pass_params \<Rightarrow> llmodule \<Rightarrow> addr list \<Rightarrow> addr dset option
    \<Rightarrow> tstate \<Rightarrow> tstate \<times> bool" where
  "scanLoadsFromTaintedPointers cfg m PointersToScan Kills s =
     fold (scan_pointer cfg m Kills) PointersToScan (s, False)"

declare scan_load.simps [simp del]

subsection \<open>It grows the state\<close>

lemma grows_scan_load: "grows m (fst x) (fst (scan_load cfg m ks Ptr I x))"
  by (cases x) (auto simp: scan_load.simps Let_def dest: load_universe split: option.split
      intro!: grow_intros)

interpretation scan_step: keeps_preorder
    "\<lambda>x y. grows m (fst x) (fst y)" "scan_load cfg m ks Ptr" for m cfg ks Ptr
  by unfold_locales (auto intro: grows_scan_load grows_trans)

interpretation scan_ptr_step: keeps_preorder
    "\<lambda>x y. grows m (fst x) (fst y)" "scan_pointer cfg m ks" for m cfg ks
  by unfold_locales (auto simp: scan_pointer_def intro: grows_trans scan_step.R_fold)

lemma grows_scan [grow_intros]:
  "grows m s x \<Longrightarrow> grows m s (fst (scanLoadsFromTaintedPointers cfg m pts ks x))"
  using scan_ptr_step.R_fold[of m "(x, False)" cfg ks pts]
  by (auto simp: scanLoadsFromTaintedPointers_def intro: grows_trans)

subsection \<open>What it leaves alone\<close>

definition scan_frame :: "tstate \<times> bool \<Rightarrow> tstate \<times> bool \<Rightarrow> bool" where
  "scan_frame x y =
     (TaintedPointers (fst y) = TaintedPointers (fst x)
      \<and> KilledStores (fst y) = KilledStores (fst x)
      \<and> FunctionsReturningTaint (fst y) = FunctionsReturningTaint (fst x)
      \<and> PointerTaintOrigin (fst y) = PointerTaintOrigin (fst x)
      \<and> FunctionLevel (fst y) = FunctionLevel (fst x)
      \<and> FunctionsTaintingPointerParams (fst y) = FunctionsTaintingPointerParams (fst x)
      \<and> changed (fst y) = changed (fst x)
      \<and> discoveredNewFunctions (fst y) = discoveredNewFunctions (fst x))"

lemma scan_frame_load: "scan_frame x (scan_load cfg m ks Ptr I x)"
  by (cases x) (simp add: scan_frame_def scan_load.simps Let_def split: option.split)

interpretation scan_frame_step: keeps_preorder scan_frame "scan_load cfg m ks Ptr" for cfg m ks Ptr
  by unfold_locales (simp_all add: scan_frame_load, simp_all add: scan_frame_def)

interpretation scan_frame_ptr: keeps_preorder scan_frame "scan_pointer cfg m ks" for cfg m ks
  by unfold_locales
    (simp_all add: scan_pointer_def scan_frame_step.R_fold, simp_all add: scan_frame_def)

lemma scan_fields [simp]:
  "TaintedPointers (fst (scanLoadsFromTaintedPointers cfg m pts ks s)) = TaintedPointers s"
  "KilledStores (fst (scanLoadsFromTaintedPointers cfg m pts ks s)) = KilledStores s"
  "FunctionsReturningTaint (fst (scanLoadsFromTaintedPointers cfg m pts ks s)) = FunctionsReturningTaint s"
  "PointerTaintOrigin (fst (scanLoadsFromTaintedPointers cfg m pts ks s)) = PointerTaintOrigin s"
  "FunctionLevel (fst (scanLoadsFromTaintedPointers cfg m pts ks s)) = FunctionLevel s"
  "FunctionsTaintingPointerParams (fst (scanLoadsFromTaintedPointers cfg m pts ks s)) =
     FunctionsTaintingPointerParams s"
  "changed (fst (scanLoadsFromTaintedPointers cfg m pts ks s)) = changed s"
  "discoveredNewFunctions (fst (scanLoadsFromTaintedPointers cfg m pts ks s)) = discoveredNewFunctions s"
  using scan_frame_ptr.R_fold[of "(s, False)" cfg m ks pts]
  by (simp_all add: scanLoadsFromTaintedPointers_def scan_frame_def)

subsection \<open>The loads it taints\<close>

definition reads_pointer :: "llmodule \<Rightarrow> addr \<Rightarrow> addr \<Rightarrow> bool" where
  "reads_pointer m I Ptr = (case as_load m I of
     Some lp \<Rightarrow> direct_load m (strip m lp) Ptr \<or> field_load m (strip m lp) Ptr | None \<Rightarrow> False)"

definition killed_before :: "llmodule \<Rightarrow> addr dset option \<Rightarrow> addr \<Rightarrow> addr \<Rightarrow> bool" where
  "killed_before m ks Ptr I = (case ks of Some k \<Rightarrow> after_kill m k Ptr I | None \<Rightarrow> False)"

text \<open>The loads a scan of \<open>Ptr\<close> taints: a property of the module and the origins alone.\<close>

definition live_load :: "llmodule \<Rightarrow> addr dset option \<Rightarrow> (addr, addr) dmap \<Rightarrow> addr \<Rightarrow> addr \<Rightarrow> bool" where
  "live_load m ks pto Ptr I =
     (reads_pointer m I Ptr \<and> \<not> killed_before m ks Ptr I \<and> \<not> isLoadBeforeTaintOrigin m I Ptr pto)"

lemma after_kill_iff:
  "after_kill m ks Ptr I =
     (\<exists>K \<in> set ks. store_pointer m K = Ptr \<and> block_of_inst m I = block_of_inst m K
        \<and> precedes m K I)"
  by (auto simp: after_kill_def list_ex_iff seen_at_iff precedes_def)

lemma scan_load_tainted:
  "set (TaintedValues (fst (scan_load cfg m ks Ptr I (s, ch)))) =
     set (TaintedValues s) \<union> (if live_load m ks (PointerTaintOrigin s) Ptr I then {I} else {})"
  by (auto simp: scan_load.simps Let_def live_load_def reads_pointer_def killed_before_def
      split: option.splits)

lemma scan_load_flag:
  "snd (scan_load cfg m ks Ptr I (s, ch)) =
     (ch \<or> TaintedValues (fst (scan_load cfg m ks Ptr I (s, ch))) \<noteq> TaintedValues s)"
  by (auto simp: scan_load.simps Let_def ds_insert_def split: option.splits)

lemma scan_insts_tainted:
  "set (TaintedValues (fst (fold (scan_load cfg m ks Ptr) is (s, ch)))) =
     set (TaintedValues s) \<union> {I \<in> set is. live_load m ks (PointerTaintOrigin s) Ptr I}"
proof (induction "is" arbitrary: s ch)
  case Nil
  then show ?case by simp
next
  case (Cons I "is")
  obtain s' ch' where st: "scan_load cfg m ks Ptr I (s, ch) = (s', ch')" by fastforce
  have "PointerTaintOrigin s' = PointerTaintOrigin s"
    using scan_frame_load[of "(s, ch)" cfg m ks Ptr I] st by (simp add: scan_frame_def)
  then show ?case
    using Cons.IH[of s' ch'] scan_load_tainted[of cfg m ks Ptr I s ch] st by auto
qed

lemma scan_pointers_tainted:
  "set (TaintedValues (fst (fold (scan_pointer cfg m ks) pts (s, ch)))) =
     set (TaintedValues s)
       \<union> {I \<in> set (all_insts m). \<exists>Ptr \<in> set pts. live_load m ks (PointerTaintOrigin s) Ptr I}"
proof (induction pts arbitrary: s ch)
  case Nil
  then show ?case by simp
next
  case (Cons p pts)
  obtain s' ch' where st: "scan_pointer cfg m ks p (s, ch) = (s', ch')" by fastforce
  have "PointerTaintOrigin s' = PointerTaintOrigin s"
    using scan_frame_step.R_fold[of "(s, ch)" cfg m ks p "all_insts m"] st
    by (simp add: scan_frame_def scan_pointer_def)
  then show ?case
    using Cons.IH[of s' ch'] scan_insts_tainted[of cfg m ks p "all_insts m" s ch] st
    by (auto simp: scan_pointer_def)
qed

lemma scan_tainted:
  "set (TaintedValues (fst (scanLoadsFromTaintedPointers cfg m pts ks s))) =
     set (TaintedValues s)
       \<union> {I \<in> set (all_insts m). \<exists>Ptr \<in> set pts. live_load m ks (PointerTaintOrigin s) Ptr I}"
  by (simp add: scanLoadsFromTaintedPointers_def scan_pointers_tainted)

text \<open>The flag is set exactly when a value was tainted.\<close>

definition flag_exact :: "tstate \<times> bool \<Rightarrow> tstate \<times> bool \<Rightarrow> bool" where
  "flag_exact x y = (set (TaintedValues (fst x)) \<subseteq> set (TaintedValues (fst y))
     \<and> (snd y \<longleftrightarrow> snd x \<or> set (TaintedValues (fst y)) \<noteq> set (TaintedValues (fst x))))"

lemma flag_exact_load: "flag_exact x (scan_load cfg m ks Ptr I x)"
  by (cases x) (auto simp: flag_exact_def scan_load.simps Let_def split: option.splits)

interpretation flag_step: keeps_preorder flag_exact "scan_load cfg m ks Ptr" for cfg m ks Ptr
  by unfold_locales (simp_all add: flag_exact_load, auto simp: flag_exact_def)

interpretation flag_ptr: keeps_preorder flag_exact "scan_pointer cfg m ks" for cfg m ks
  by unfold_locales (simp_all add: scan_pointer_def flag_step.R_fold, auto simp: flag_exact_def)

lemma scan_changed_iff:
  "snd (scanLoadsFromTaintedPointers cfg m pts ks s) =
     (set (TaintedValues (fst (scanLoadsFromTaintedPointers cfg m pts ks s))) \<noteq> set (TaintedValues s))"
  using flag_ptr.R_fold[of "(s, False)" cfg m ks pts]
  by (auto simp: scanLoadsFromTaintedPointers_def flag_exact_def)

subsection \<open>Properties\<close>

text \<open>
  C18: \<open>scanLoadsFromTaintedPointers\<close> taints exactly these loads: those in the functions with
  a body that read one of the pointers, directly or as a field of the struct it points to, do
  not follow a kill store of that pointer in their block, and do not stand before the
  instruction that tainted it. It returns true exactly when one of them was not tainted yet.
\<close>

theorem scan_result:
  "set (TaintedValues (fst (scanLoadsFromTaintedPointers cfg m pts (Some ks) s))) =
     set (TaintedValues s) \<union>
       {I \<in> set (all_insts m). \<exists>Ptr \<in> set pts. reads_pointer m I Ptr
          \<and> \<not> (\<exists>K \<in> set ks. store_pointer m K = Ptr \<and> block_of_inst m I = block_of_inst m K
                \<and> precedes m K I)
          \<and> \<not> (\<exists>Org. map_of (PointerTaintOrigin s) Ptr = Some Org \<and> precedes m I Org)}
   \<and> (snd (scanLoadsFromTaintedPointers cfg m pts (Some ks) s) \<longleftrightarrow>
      set (TaintedValues (fst (scanLoadsFromTaintedPointers cfg m pts (Some ks) s))) \<noteq> set (TaintedValues s))"
  unfolding scan_changed_iff
  by (simp add: scan_tainted live_load_def killed_before_def after_kill_iff isLoadBeforeTaintOrigin_iff)

lemma scan_result_witness:
  "23 \<in> set (TaintedValues (fst (scanLoadsFromTaintedPointers ex_cfg ex_params [21] (Some []) init_state)))"
proof -
  have "23 \<in> set (all_insts ex_params)" "reads_pointer ex_params 23 21"
    "PointerTaintOrigin init_state = []" by code_simp+
  with scan_result[of ex_cfg ex_params "[21]" "[]" init_state] show ?thesis by auto
qed

text \<open>
  C19: The order of the pointers, which the code sorts, does not matter for what is tainted:
  two lists with the same pointers taint the same loads and return the same flag.
\<close>

theorem scan_order_irrelevant:
  assumes "set pts = set pts'"
  shows "set (TaintedValues (fst (scanLoadsFromTaintedPointers cfg m pts ks s))) =
       set (TaintedValues (fst (scanLoadsFromTaintedPointers cfg m pts' ks s)))
     \<and> snd (scanLoadsFromTaintedPointers cfg m pts ks s) =
       snd (scanLoadsFromTaintedPointers cfg m pts' ks s)"
  using assms by (simp add: scan_changed_iff scan_tainted)

lemma scan_order_irrelevant_witness:
  "snd (scanLoadsFromTaintedPointers ex_cfg ex_params [12, 21] None init_state) =
   snd (scanLoadsFromTaintedPointers ex_cfg ex_params [21, 12, 21] None init_state)"
  using scan_order_irrelevant[of "[12, 21]" "[21, 12, 21]" ex_cfg ex_params None init_state] by auto

end
