(* ===== verification/Targets.thy ===== *)
theory Targets
  imports Load_Scan
begin

text \<open>
  Function pointers: the map from a pointer to the functions stored to it, built before the
  analysis when indirect calls are followed, and the resolution of the callee of an indirect
  call from it.
\<close>

subsection \<open>Building the map\<close>

definition add_target :: "addr \<Rightarrow> addr \<Rightarrow> tstate \<Rightarrow> tstate" where
  "add_target p f s = s\<lparr>FunctionPointerTargets :=
     dm_set p (dm_get [] (FunctionPointerTargets s) p @ [f]) (FunctionPointerTargets s)\<rparr>"

definition store_target :: "pass_params \<Rightarrow> llmodule \<Rightarrow> addr \<Rightarrow> tstate \<Rightarrow> tstate" where
  "store_target cfg m I s =
     (case as_store m I of
        None \<Rightarrow> s
      | Some (StoredVal, Ptr) \<Rightarrow>
          if is_function m StoredVal then
            let PtrStripped = strip m Ptr;
                s1 = add_target PtrStripped StoredVal s;
                s2 = (if Ptr \<noteq> PtrStripped then add_target Ptr StoredVal s1 else s1)
            in emit_if (Verbose cfg) VERBOSE Ptr
                 (''  Found function pointer assignment: '' @ getValueName m Ptr @ '' <- ''
                  @ fun_name m StoredVal) s2
          else s)"

definition build_targets :: "pass_params \<Rightarrow> llmodule \<Rightarrow> tstate \<Rightarrow> tstate" where
  "build_targets cfg m s =
     (if IndirectCallMode cfg
      then emit_if (Verbose cfg) VERBOSE nullptr []
             (fold (store_target cfg m) (all_insts m)
               (emit_if (Verbose cfg) VERBOSE nullptr
                  ''=== Building Function Pointer Target Map ==='' s))
      else s)"

text \<open>
  Every store of a function contributes it, in program order, to the pointer operand as
  written and as stripped.
\<close>

definition stored_function :: "llmodule \<Rightarrow> addr \<Rightarrow> addr \<Rightarrow> addr list" where
  "stored_function m p I = (case as_store m I of
     Some (v, q) \<Rightarrow> (if is_function m v \<and> (strip m q = p \<or> q = p) then [v] else []) | None \<Rightarrow> [])"

lemma emit_targets [simp]:
  "FunctionPointerTargets (emit t v txt s) = FunctionPointerTargets s"
  "FunctionPointerTargets (emit_if c t v txt s) = FunctionPointerTargets s"
  by (simp_all add: primitive_defs)

lemma store_target_step:
  "dm_get [] (FunctionPointerTargets (store_target cfg m I s)) p =
     dm_get [] (FunctionPointerTargets s) p @ stored_function m p I"
  by (auto simp: store_target_def stored_function_def add_target_def Let_def split: option.split)

lemma store_target_fold:
  "dm_get [] (FunctionPointerTargets (fold (store_target cfg m) is s)) p =
     dm_get [] (FunctionPointerTargets s) p @ concat (map (stored_function m p) is)"
  by (induction "is" arbitrary: s) (simp_all add: store_target_step)

lemma build_targets_entries:
  "IndirectCallMode cfg \<Longrightarrow>
     dm_get [] (FunctionPointerTargets (build_targets cfg m init_state)) p =
       concat (map (stored_function m p) (all_insts m))"
  by (simp add: build_targets_def store_target_fold)
    (simp add: init_state_def dm_get_def)

lemma store_target_frame:
  "Worklist (store_target cfg m I s) = Worklist s"
  "TaintedValues (store_target cfg m I s) = TaintedValues s"
  "TaintedPointers (store_target cfg m I s) = TaintedPointers s"
  "KilledStores (store_target cfg m I s) = KilledStores s"
  "FunctionsReturningTaint (store_target cfg m I s) = FunctionsReturningTaint s"
  "PointerTaintOrigin (store_target cfg m I s) = PointerTaintOrigin s"
  "ValueLevel (store_target cfg m I s) = ValueLevel s"
  "FunctionLevel (store_target cfg m I s) = FunctionLevel s"
  "FunctionsTaintingPointerParams (store_target cfg m I s) = FunctionsTaintingPointerParams s"
  by (simp_all add: store_target_def add_target_def Let_def split: option.split)

text \<open>The taint part of the state is still the empty one afterwards.\<close>

definition no_taint :: "tstate \<Rightarrow> bool" where
  "no_taint s = (Worklist s = [] \<and> TaintedValues s = [] \<and> TaintedPointers s = []
     \<and> KilledStores s = [] \<and> FunctionsReturningTaint s = [] \<and> PointerTaintOrigin s = []
     \<and> ValueLevel s = [] \<and> FunctionLevel s = [] \<and> FunctionsTaintingPointerParams s = [])"

interpretation targets_step: keeps_invariant no_taint "\<lambda>x. True" "store_target cfg m" for cfg m
  by unfold_locales (simp add: no_taint_def store_target_frame)

lemma build_targets_no_taint: "no_taint s \<Longrightarrow> no_taint (build_targets cfg m s)"
proof -
  assume "no_taint s"
  then have "no_taint (emit_if (Verbose cfg) VERBOSE nullptr
      ''=== Building Function Pointer Target Map ==='' s)"
    by (simp add: no_taint_def)
  from targets_step.I_fold[OF this, of "all_insts m" cfg m] \<open>no_taint s\<close> show ?thesis
    by (simp add: build_targets_def no_taint_def list_all_iff)
qed

subsection \<open>Resolving an indirect call\<close>

text \<open>The first entry, by address, whose key is a GEP with the same pattern.\<close>

definition match_entry :: "llmodule \<Rightarrow> addr \<Rightarrow> (addr, addr list) dmap \<Rightarrow> addr list" where
  "match_entry m LoadGEP fpt =
     (case find (\<lambda>Entry. as_gep m (fst Entry) \<noteq> None \<and> sameGEPPattern m LoadGEP (fst Entry))
        (sort_key fst fpt)
      of Some Entry \<Rightarrow> snd Entry | None \<Rightarrow> [])"

definition resolve_targets :: "llmodule \<Rightarrow> (addr, addr list) dmap \<Rightarrow> addr \<Rightarrow> addr list" where
  "resolve_targets m fpt CalledValue =
     (case as_load m CalledValue of
        None \<Rightarrow> []
      | Some LoadPtr \<Rightarrow>
          if dm_count fpt LoadPtr then dm_get [] fpt LoadPtr
          else if dm_count fpt (strip m LoadPtr) then dm_get [] fpt (strip m LoadPtr)
          else if as_gep m LoadPtr \<noteq> None then match_entry m LoadPtr fpt
          else [])"

text \<open>
  Whatever is resolved is an entry of the map: of the pointer, of the stripped pointer or of
  a GEP with the same pattern.
\<close>

lemma resolve_targets_entry:
  assumes "resolve_targets m fpt c \<noteq> []"
  shows "\<exists>p q. as_load m c = Some p \<and> (q, resolve_targets m fpt c) \<in> set fpt
     \<and> (q = p \<or> q = strip m p \<or> sameGEPPattern m p q)"
proof -
  obtain p where p: "as_load m c = Some p"
    using assms by (auto simp: resolve_targets_def split: option.splits)
  consider (own) "dm_count fpt p" | (stripped) "\<not> dm_count fpt p" "dm_count fpt (strip m p)"
    | (gep) "\<not> dm_count fpt p" "\<not> dm_count fpt (strip m p)" by blast
  then show ?thesis
  proof cases
    case own
    then show ?thesis
      using p by (fastforce simp: resolve_targets_def dm_get_def dest: map_of_SomeD)
  next
    case stripped
    then show ?thesis
      using p by (fastforce simp: resolve_targets_def dm_get_def dest: map_of_SomeD)
  next
    case gep
    then have eq: "resolve_targets m fpt c = match_entry m p fpt"
      using p assms by (auto simp: resolve_targets_def split: if_splits)
    with assms obtain e where
      "find (\<lambda>Entry. as_gep m (fst Entry) \<noteq> None \<and> sameGEPPattern m p (fst Entry))
        (sort_key fst fpt) = Some e" "resolve_targets m fpt c = snd e"
      by (auto simp: match_entry_def split: option.splits)
    then have "e \<in> set fpt" "sameGEPPattern m p (fst e)" "resolve_targets m fpt c = snd e"
      by (auto dest: find_SomeD)
    then show ?thesis using p by (metis prod.collapse)
  qed
qed

lemma build_targets_off: "\<not> IndirectCallMode cfg \<Longrightarrow> FunctionPointerTargets (build_targets cfg m init_state) = []"
  by (simp add: build_targets_def init_state_def)

lemma stored_functionD: "T \<in> set (stored_function m p I) \<Longrightarrow>
    is_function m T \<and> (\<exists>q. as_store m I = Some (T, q) \<and> (strip m q = p \<or> q = p))"
  by (cases "as_store m I") (auto simp: stored_function_def split: if_splits)

lemma resolve_empty: "resolve_targets m [] c = []"
  by (simp add: resolve_targets_def match_entry_def split: option.split)

interpretation targets_distinct: keeps_invariant
    "\<lambda>s. distinct (map fst (FunctionPointerTargets s))" "\<lambda>x. True" "store_target cfg m" for cfg m
  by unfold_locales
    (auto simp: store_target_def add_target_def Let_def distinct_dm_set simp del: map_map split: option.split)

lemma build_targets_distinct: "distinct (map fst (FunctionPointerTargets (build_targets cfg m init_state)))"
proof -
  have i: "distinct (map fst (FunctionPointerTargets (emit_if c t v tx init_state)))" for c t v tx
    by (simp add: init_state_def)
  show ?thesis
    using targets_distinct.I_fold[OF i, of "all_insts m" cfg m]
    by (simp add: build_targets_def list_all_iff) (simp add: init_state_def)
qed

text \<open>A function an indirect call is resolved to was stored to the pointer it is called through.\<close>

lemma resolved_stored:
  assumes "T \<in> set (resolve_targets m (FunctionPointerTargets (build_targets cfg m init_state)) c)"
  shows "IndirectCallMode cfg \<and> is_function m T
     \<and> (\<exists>S q p k. S \<in> set (all_insts m) \<and> as_store m S = Some (T, q) \<and> as_load m c = Some p
          \<and> (k = q \<or> k = strip m q) \<and> (k = p \<or> k = strip m p \<or> sameGEPPattern m p k))"
proof -
  let ?fpt = "FunctionPointerTargets (build_targets cfg m init_state)"
  have "resolve_targets m ?fpt c \<noteq> []" using assms by auto
  then obtain p k where pk: "as_load m c = Some p" "(k, resolve_targets m ?fpt c) \<in> set ?fpt"
      "k = p \<or> k = strip m p \<or> sameGEPPattern m p k"
    using resolve_targets_entry by blast
  have on: "IndirectCallMode cfg"
    using assms by (cases "IndirectCallMode cfg") (simp_all add: build_targets_off resolve_empty)
  have "map_of ?fpt k = Some (resolve_targets m ?fpt c)"
    using pk(2) build_targets_distinct by simp
  then have "T \<in> set (concat (map (stored_function m k) (all_insts m)))"
    using assms build_targets_entries[OF on, of m k] by (simp add: dm_get_def)
  then obtain S where "S \<in> set (all_insts m)" "T \<in> set (stored_function m k S)" by auto
  with pk on show ?thesis by (blast dest: stored_functionD)
qed

subsection \<open>Properties\<close>

text \<open>
  C29: The function pointer map. When indirect calls are followed, the entry of a pointer is
  the list of the functions stored to it in the module, in program order, where a store counts
  for its pointer operand as written and for the operand without its casts.
\<close>

theorem target_map_entries:
  assumes "IndirectCallMode cfg"
  shows "dm_get [] (FunctionPointerTargets (build_targets cfg m init_state)) p =
     concat (map (stored_function m p) (all_insts m))"
  by (rule build_targets_entries[OF assms])

lemma target_map_entries_witness:
  "dm_get [] (FunctionPointerTargets (build_targets ex_indirect_cfg ex_indirect init_state)) 12 = [4]"
proof -
  have "IndirectCallMode ex_indirect_cfg" by (simp add: ex_indirect_cfg_def)
  moreover have "concat (map (stored_function ex_indirect 12) (all_insts ex_indirect)) = [4]" by code_simp
  ultimately show ?thesis using target_map_entries[of ex_indirect_cfg ex_indirect 12] by simp
qed

end
