(* ===== verification/Seed.thy ===== *)
theory Seed
  imports Targets
begin

text \<open>
  Phase 1 of \<open>run\<close>: the configuration printed, the search of the named function for the
  instruction with the constant, and what happens at the source: it is tainted at level 0,
  and a return, a store or a call that uses the constant is followed at once.
\<close>

subsection \<open>Tainting a parameter of a callee\<close>

text \<open>
  The same statements stand at three places of the pass: a parameter that is not yet tainted
  is, one level below the value passed.
\<close>

definition taint_param :: "pass_params \<Rightarrow> llmodule \<Rightarrow> string \<Rightarrow> addr \<Rightarrow> nat \<Rightarrow> int \<Rightarrow> addr
    \<Rightarrow> tstate \<Rightarrow> tstate" where
  "taint_param cfg m margin Callee ArgIdx currentLevel CallI s =
     (let Param = args_of m Callee ! ArgIdx;
          newLevel = currentLevel - 1;
          s1 = taint_push Param (set_flevel Callee newLevel (set_level Param newLevel s))
      in emit INTERPROC Param
           (margin @ ''[INTERPROC] Propagating taint to parameter in '' @ fun_name m Callee @ '': ''
            @ getValueName m Param @ getDebugLoc cfg m CallI @ func_level_v m s1 Param) s1)"

subsection \<open>At the source\<close>

definition seed_return :: "pass_params \<Rightarrow> llmodule \<Rightarrow> addr \<Rightarrow> addr \<Rightarrow> tstate \<Rightarrow> tstate" where
  "seed_return cfg m I CI s =
     (case as_ret m I of
        Some rv \<Rightarrow>
          (if rv = CI then
             let s1 = emit SOURCE_RETURN I (''[RETURN] Constant is returned directly''
                        @ getDebugLoc cfg m I @ func_level m s I) s
             in if func_of_inst m I \<noteq> nullptr then add_returning (func_of_inst m I) s1 else s1
           else s)
      | None \<Rightarrow> s)"

definition seed_store :: "pass_params \<Rightarrow> llmodule \<Rightarrow> addr \<Rightarrow> tstate \<Rightarrow> tstate" where
  "seed_store cfg m I s =
     (case as_store m I of
        None \<Rightarrow> s
      | Some (v, ptr) \<Rightarrow>
          let Ptr = strip m ptr;
              here = getDebugLoc cfg m I @ func_level m s I;
              s1 = emit SOURCE_STORE I (''[STORE DESTINATION] Storing constant to: ''
                     @ getValueName m Ptr @ here) s
          in case as_global m Ptr of
               Some g \<Rightarrow> emit SOURCE_GLOBAL I
                 (''[GLOBAL] Constant stored to global variable: '' @ g @ here) s1
             | None \<Rightarrow>
                 (case trackedPointerParameterOrigin m ptr of
                    (PtrParam, out) \<Rightarrow>
                      let s2 = emit TRACK I (result_text m PtrParam) (emit TRACK ptr out s1);
                          F = func_of_inst m I;
                          ParamIdx = arg_no m PtrParam;
                          fieldIndices = extractStructFieldIndices m ptr
                      in if PtrParam \<noteq> nullptr then
                           (if F \<noteq> nullptr then
                              emit_if (Verbose cfg) VERBOSE I
                                (''  Tracking: Function '' @ fun_name m F @ '' taints parameter ''
                                 @ show_nat ParamIdx
                                 @ (if fieldIndices \<noteq> []
                                    then '' fields ['' @ join_with '', '' (map show_int fieldIndices)
                                         @ '']'' else []))
                               (record_fields F ParamIdx fieldIndices
                                 (emit SOURCE_PARAM I
                                   (''[POINTER PARAMETER] Constant stored through pointer parameter #''
                                    @ show_nat ParamIdx @ '' ('' @ getValueName m PtrParam @ '')'' @ here)
                                  (add_ptr_param F ParamIdx s2)))
                            else s2)
                         else if \<not> ds_count (TaintedPointers s2) Ptr then taint_pointer Ptr I s2
                         else s2))"

text \<open>One argument position of a call that uses the constant.\<close>

definition seed_call_arg :: "pass_params \<Rightarrow> llmodule \<Rightarrow> addr \<Rightarrow> addr \<Rightarrow> addr \<Rightarrow> nat \<times> addr
    \<Rightarrow> tstate \<Rightarrow> tstate" where
  "seed_call_arg cfg m I CI Callee ia s =
     (case ia of (ArgIdx, Arg) \<Rightarrow>
       if Arg = CI then
         let s1 = emit SOURCE_CALL I (''[CHILD FUNCTION] Constant used in call to '' @ fun_name m Callee
                    @ '' at argument '' @ show_nat ArgIdx @ getDebugLoc cfg m I @ func_level m s I) s
         in if InterprocMode cfg \<and> \<not> is_declaration m Callee
               \<and> ArgIdx < length (args_of m Callee)
               \<and> \<not> ds_count (TaintedValues s1) (args_of m Callee ! ArgIdx)
            then taint_param cfg m [] Callee ArgIdx (level m s1 I) I s1
            else s1
       else s)"

definition seed_indirect_arg :: "pass_params \<Rightarrow> llmodule \<Rightarrow> addr \<Rightarrow> addr \<Rightarrow> nat \<times> addr
    \<Rightarrow> tstate \<Rightarrow> tstate" where
  "seed_indirect_arg cfg m I CI ia s =
     (case ia of (ArgIdx, Arg) \<Rightarrow>
       if Arg = CI then
         emit SOURCE_CALL I (''[CHILD FUNCTION] Constant used in indirect call at argument ''
            @ show_nat ArgIdx @ getDebugLoc cfg m I) s
       else s)"

definition seed_call :: "pass_params \<Rightarrow> llmodule \<Rightarrow> addr \<Rightarrow> addr \<Rightarrow> tstate \<Rightarrow> tstate" where
  "seed_call cfg m I CI s =
     (case as_call m I of
        None \<Rightarrow> s
      | Some (Callee, cv, args) \<Rightarrow>
          if Callee \<noteq> nullptr
          then fold (seed_call_arg cfg m I CI Callee) (enumerate 0 args) s
          else fold (seed_indirect_arg cfg m I CI) (enumerate 0 args) s)"

definition seed_source :: "pass_params \<Rightarrow> llmodule \<Rightarrow> addr \<Rightarrow> addr \<Rightarrow> tstate \<Rightarrow> tstate" where
  "seed_source cfg m I CI s =
     (let s1 = taint_push I s;
          s2 = (if func_of_inst m I \<noteq> nullptr then set_flevel (func_of_inst m I) 0 s1 else s1);
          s3 = set_level I 0 s2;
          here = getDebugLoc cfg m I @ func_level m s3 I;
          s4 = emit SOURCE I (''[SOURCE] Tainting: '' @ getValueName m I @ here) s3;
          s5 = emit SOURCE_USE I (''[USE] Source instruction in data flow'' @ here) s4
      in seed_call cfg m I CI (seed_store cfg m I (seed_return cfg m I CI s5)))"

subsection \<open>The search\<close>

text \<open>
  The state of the search: the taint state, the counter \<open>currentOccurrence\<close> (an unsigned
  int), and whether \<open>goto found\<close> was taken, after which every loop is over.
\<close>

type_synonym search = "tstate \<times> u32 \<times> bool"

fun seed_operand :: "pass_params \<Rightarrow> llmodule \<Rightarrow> addr \<Rightarrow> nat \<times> addr \<Rightarrow> search \<Rightarrow> search" where
  "seed_operand cfg m I (NumOp, Op) (s, currentOccurrence, stop) =
     (if stop then (s, currentOccurrence, stop)
      else
        let s1 = emit_if (Verbose cfg) VERBOSE Op
                   (''Op '' @ show_nat NumOp @ '': '' @ printed (vinfo_of m Op)) s
        in case as_const_int m Op of
             None \<Rightarrow> (s1, currentOccurrence, False)
           | Some c \<Rightarrow>
               if c \<noteq> ConstantToTrack cfg then (s1, currentOccurrence, False)
               else
                 let occ = currentOccurrence + 1
                 in if OccurrenceIndex cfg \<noteq> 0 \<and> occ \<noteq> OccurrenceIndex cfg then
                      (emit_if (Verbose cfg) VERBOSE I
                        (''  Skipping occurrence '' @ show_nat (unat occ) @ '' (looking for ''
                         @ show_nat (unat (OccurrenceIndex cfg)) @ '')'') s1, occ, False)
                    else
                      ((if \<not> ds_count (TaintedValues s1) I then seed_source cfg m I Op s1 else s1),
                       occ, OccurrenceIndex cfg \<noteq> 0))"

definition opcode_of :: "llmodule \<Rightarrow> addr \<Rightarrow> string" where
  "opcode_of m I = (case inst_of m I of Some i \<Rightarrow> opcode i | None \<Rightarrow> [])"

definition operands_of :: "llmodule \<Rightarrow> addr \<Rightarrow> addr list" where
  "operands_of m I = (case inst_of m I of Some i \<Rightarrow> operands i | None \<Rightarrow> [])"

fun seed_inst :: "pass_params \<Rightarrow> llmodule \<Rightarrow> nat \<times> addr \<Rightarrow> search \<Rightarrow> search" where
  "seed_inst cfg m (NumInst, I) (s, occ, stop) =
     (if stop then (s, occ, stop)
      else
        let s1 = emit_if (Verbose cfg) VERBOSE I
                   (''Inst '' @ show_nat NumInst @ '': '' @ opcode_of m I) s
        in if TargetOpcode cfg \<noteq> [] \<and> opcode_of m I \<noteq> TargetOpcode cfg then (s1, occ, False)
           else fold (seed_operand cfg m I) (enumerate 1 (operands_of m I)) (s1, occ, False))"

fun seed_block :: "pass_params \<Rightarrow> llmodule \<Rightarrow> nat \<times> block \<Rightarrow> search \<Rightarrow> search" where
  "seed_block cfg m (NumBB, BB) (s, occ, stop) =
     (if stop then (s, occ, stop)
      else fold (seed_inst cfg m) (enumerate 1 (binsts BB))
             (emit_if (Verbose cfg) VERBOSE nullptr (''BB '' @ show_nat NumBB) s, occ, False))"

definition seed_function :: "pass_params \<Rightarrow> llmodule \<Rightarrow> func \<Rightarrow> search \<Rightarrow> search" where
  "seed_function cfg m F x =
     (if fname F = FunctionName cfg
      then fold (seed_block cfg m) (enumerate 1 (fblocks F)) x else x)"

definition config_lines :: "pass_params \<Rightarrow> string list" where
  "config_lines cfg =
     [''=== Taint Tracker Configuration ==='',
      ''Function: '' @ FunctionName cfg,
      ''Opcode: '' @ TargetOpcode cfg,
      ''Constant: '' @ show_int (ConstantToTrack cfg),
      ''Verbose: '' @ on_off (Verbose cfg),
      ''Interproc (downward): '' @ on_off (InterprocMode cfg),
      ''Interproc (upward): '' @ on_off (UpwardInterprocMode cfg),
      ''IndirectCall: '' @ on_off (IndirectCallMode cfg),
      ''ApproxDebugInfo: '' @ on_off (ApproxDebugInfo cfg),
      (if OccurrenceIndex cfg = 0 then ''Occurrence: ALL''
       else ''Occurrence: '' @ show_nat (unat (OccurrenceIndex cfg)) @ '' (of constant ''
            @ show_int (ConstantToTrack cfg) @ '')''),
      []]"

definition print_config :: "pass_params \<Rightarrow> tstate \<Rightarrow> tstate" where
  "print_config cfg s = fold (emit CONFIG nullptr) (config_lines cfg) s"

definition seed :: "pass_params \<Rightarrow> llmodule \<Rightarrow> tstate \<Rightarrow> tstate" where
  "seed cfg m s = fst (fold (seed_function cfg m) (funcs m) (s, 0, False))"

declare seed_operand.simps [simp del] seed_inst.simps [simp del] seed_block.simps [simp del]

subsection \<open>Seeding grows the state\<close>

lemma grows_taint_param [grow_intros]:
  "grows m s x \<Longrightarrow> ArgIdx < length (args_of m Callee) \<Longrightarrow>
     args_of m Callee ! ArgIdx \<notin> set (TaintedValues x) \<Longrightarrow>
     grows m s (taint_param cfg m mg Callee ArgIdx l C x)"
  by (auto simp: taint_param_def Let_def intro!: grow_intros nth_args_universe)

lemma grows_seed_return [grow_intros]: "grows m s x \<Longrightarrow> grows m s (seed_return cfg m' I CI x)"
  by (auto simp: seed_return_def Let_def split: option.split intro!: grow_intros)

lemma grows_seed_store [grow_intros]: "grows m s x \<Longrightarrow> grows m s (seed_store cfg m I x)"
  by (auto simp: seed_store_def Let_def dest: store_universe split: option.split prod.split
      intro!: grow_intros)

lemma grows_seed_call_arg: "grows m s (seed_call_arg cfg m I CI Callee ia s)"
  by (auto simp: seed_call_arg_def Let_def split: prod.split intro!: grow_intros)

lemma grows_seed_indirect_arg: "grows m s (seed_indirect_arg cfg m' I CI ia s)"
  by (auto simp: seed_indirect_arg_def split: prod.split intro!: grow_intros)

interpretation seed_arg_step: keeps_preorder "grows m" "seed_call_arg cfg m I CI Callee"
    for m cfg I CI Callee
  by unfold_locales (auto intro: grows_seed_call_arg grows_trans)

interpretation seed_ind_step: keeps_preorder "grows m" "seed_indirect_arg cfg m I CI"
    for m cfg I CI
  by unfold_locales (auto intro: grows_seed_indirect_arg grows_trans)

lemma grows_seed_call [grow_intros]: "grows m s x \<Longrightarrow> grows m s (seed_call cfg m I CI x)"
  by (auto simp: seed_call_def split: option.split
      intro: grows_trans seed_arg_step.R_fold seed_ind_step.R_fold)

text \<open>The level of a value may be written before or after the value is tainted.\<close>

lemma level_push_commute:
  "set_level v l (taint_push v s) = taint_push v (set_level v l s)"
  "set_level v l (set_flevel f k s) = set_flevel f k (set_level v l s)"
  by (simp_all add: primitive_defs)

lemma grows_seed_source [grow_intros]:
  "grows m s x \<Longrightarrow> I \<in> universe m \<Longrightarrow> I \<notin> set (TaintedValues x) \<Longrightarrow>
     grows m s (seed_source cfg m I CI x)"
  by (auto simp: seed_source_def Let_def level_push_commute intro!: grow_intros)

lemma grows_seed_operand:
  "I \<in> universe m \<Longrightarrow> grows m (fst x) (fst (seed_operand cfg m I no x))"
  by (cases x; cases no)
    (auto simp: seed_operand.simps Let_def split: option.split intro!: grow_intros)

lemma grows_seed_operands:
  "I \<in> universe m \<Longrightarrow> grows m (fst x) (fst (fold (seed_operand cfg m I) ops x))"
  by (rule keeps_preorder.R_fold, unfold_locales) (auto intro: grows_seed_operand grows_trans)

lemma grows_seed_inst: "grows m (fst x) (fst (seed_inst cfg m ni x))"
proof (cases x; cases ni)
  fix s occ stop n I
  assume x: "x = (s, occ, stop)" "ni = (n, I)"
  show ?thesis
  proof (cases "inst_of m I")
    case None
    then show ?thesis
      by (auto simp: x seed_inst.simps operands_of_def Let_def intro!: grow_intros)
  next
    case (Some i)
    let ?s1 = "emit_if (Verbose cfg) VERBOSE I (''Inst '' @ show_nat n @ '': '' @ opcode_of m I) s"
    have g: "grows m s ?s1" by (intro grow_intros grows_refl)
    moreover have "grows m ?s1
        (fst (fold (seed_operand cfg m I) (enumerate 1 (operands_of m I)) (?s1, occ, False)))"
      using grows_seed_operands[OF inst_universe[OF Some], of "(?s1, occ, False)"] by simp
    ultimately show ?thesis
      using grows_trans[of m s ?s1] by (simp add: x seed_inst.simps Let_def)
  qed
qed

interpretation seed_inst_step: keeps_preorder
    "\<lambda>x y. grows m (fst x) (fst y)" "seed_inst cfg m" for m cfg
  by unfold_locales (auto intro: grows_seed_inst grows_trans)

lemma grows_seed_block: "grows m (fst x) (fst (seed_block cfg m nb x))"
proof (cases x; cases nb)
  fix s occ stop n BB
  assume x: "x = (s, occ, stop)" "nb = (n, BB)"
  let ?s1 = "emit_if (Verbose cfg) VERBOSE nullptr (''BB '' @ show_nat n) s"
  have "grows m s ?s1" by (intro grow_intros grows_refl)
  moreover have "grows m ?s1
      (fst (fold (seed_inst cfg m) (enumerate 1 (binsts BB)) (?s1, occ, False)))"
    using seed_inst_step.R_fold[of m "(?s1, occ, False)"] by simp
  ultimately show ?thesis
    using grows_trans[of m s ?s1] by (simp add: x seed_block.simps)
qed

interpretation seed_block_step: keeps_preorder
    "\<lambda>x y. grows m (fst x) (fst y)" "seed_block cfg m" for m cfg
  by unfold_locales (auto intro: grows_seed_block grows_trans)

interpretation seed_fun_step: keeps_preorder
    "\<lambda>x y. grows m (fst x) (fst y)" "seed_function cfg m" for m cfg
  by unfold_locales (auto simp: seed_function_def intro: seed_block_step.R_fold grows_trans)

lemma grows_seed [grow_intros]: "grows m s x \<Longrightarrow> grows m s (seed cfg m x)"
  using seed_fun_step.R_fold[of m "(x, 0, False)" cfg "funcs m"]
  by (auto simp: seed_def intro: grows_trans)

end
