(* ===== verification/Forward.thy ===== *)
theory Forward
  imports Seed
begin

text \<open>
  Phase 2 of \<open>run\<close>: the worklist loop. A value taken from the worklist taints its users; a
  use as a call argument goes into the callee when that is asked for, a return or a store
  through a global or a parameter is recorded and stops there, a store to a local variable
  taints the pointer. When the worklist is empty, the stores that kill a tainted pointer are
  collected and the loads of the pointers not scanned yet are scanned; the loop runs until
  nothing changes.

  Both loops are total functions: the inner one spends a unit of \<open>potential\<close> for each value
  it takes, the outer one goes round again only after a value or a pointer of the module was
  newly tainted.
\<close>

subsection \<open>A use as a call argument\<close>

fun first_arg :: "addr \<Rightarrow> addr list \<Rightarrow> nat option" where
  "first_arg V [] = None"
| "first_arg V (a # as) = (if a = V then Some 0 else map_option Suc (first_arg V as))"

definition call_direct :: "pass_params \<Rightarrow> llmodule \<Rightarrow> addr \<Rightarrow> addr \<Rightarrow> addr \<Rightarrow> nat
    \<Rightarrow> tstate \<Rightarrow> tstate" where
  "call_direct cfg m V C Callee argIdx s =
     (let s1 = (if \<not> dm_count (ValueLevel s) C then set_level C (level m s V) s else s);
          s2 = emit CHILD C (''  [CHILD FUNCTION] Tainted value used in call to '' @ fun_name m Callee
                 @ '' at argument '' @ show_nat argIdx @ '': '' @ getValueName m C
                 @ getDebugLoc cfg m C @ func_level m s1 C) s1
      in if InterprocMode cfg \<and> argIdx < length (args_of m Callee)
            \<and> \<not> ds_count (TaintedValues s2) (args_of m Callee ! argIdx)
         then set_changed True
                (taint_param cfg m ''  '' Callee argIdx (level m s2 V) C s2)
         else s2)"

definition indirect_target :: "pass_params \<Rightarrow> llmodule \<Rightarrow> addr \<Rightarrow> addr \<Rightarrow> nat \<Rightarrow> addr
    \<Rightarrow> tstate \<Rightarrow> tstate" where
  "indirect_target cfg m V C argIdx Target s =
     (if is_declaration m Target then s
      else
        let s1 = emit TARGET Target (''    [INDIRECT TARGET] '' @ fun_name m Target) s
        in if argIdx < length (args_of m Target)
              \<and> \<not> ds_count (TaintedValues s1) (args_of m Target ! argIdx)
           then set_changed True
                  (taint_param cfg m ''    '' Target argIdx (level m s1 V) C s1)
           else s1)"

definition external_text :: "pass_params \<Rightarrow> llmodule \<Rightarrow> string \<Rightarrow> addr \<Rightarrow> string" where
  "external_text cfg m what C = ''  [EXTERNAL CALL] Tainted value used in external/'' @ what
     @ '': '' @ printed (vinfo_of m C) @ getDebugLoc cfg m C"

definition call_indirect :: "pass_params \<Rightarrow> llmodule \<Rightarrow> addr \<Rightarrow> addr \<Rightarrow> addr \<Rightarrow> nat
    \<Rightarrow> tstate \<Rightarrow> tstate" where
  "call_indirect cfg m V C CalledValue argIdx s =
     (let Targets = resolve_targets m (FunctionPointerTargets s) CalledValue
      in if Targets \<noteq> [] then
           fold (indirect_target cfg m V C argIdx) Targets
             (emit INDIRECT C (''  [INDIRECT CALL] Tainted value used in indirect call''
                @ getDebugLoc cfg m C @ '' (resolved to '' @ show_nat (length Targets)
                @ '' target(s))'') s)
         else emit EXTERNAL C (external_text cfg m ''unresolved indirect call'' C) s)"

definition call_sink :: "pass_params \<Rightarrow> llmodule \<Rightarrow> addr \<Rightarrow> addr \<Rightarrow> tstate \<Rightarrow> tstate" where
  "call_sink cfg m V C s =
     (case as_call m C of
        None \<Rightarrow> s
      | Some (Callee, CalledValue, args) \<Rightarrow>
          (case first_arg V args of
             None \<Rightarrow> s
           | Some argIdx \<Rightarrow>
               if Callee \<noteq> nullptr \<and> \<not> is_declaration m Callee
               then call_direct cfg m V C Callee argIdx s
               else if Callee = nullptr \<and> IndirectCallMode cfg \<and> InterprocMode cfg
               then call_indirect cfg m V C CalledValue argIdx s
               else emit EXTERNAL C (external_text cfg m ''indirect call'' C) s))"

subsection \<open>A use by a return or a store\<close>

text \<open>\<open>use_return\<close> is the body of the branch that ends with \<open>continue\<close>.\<close>

definition use_return :: "pass_params \<Rightarrow> llmodule \<Rightarrow> addr \<Rightarrow> tstate \<Rightarrow> tstate" where
  "use_return cfg m R s =
     (let s1 = emit RETURNED R (''  [RETURN] Stop: Tainted value is returned: ''
                 @ getValueName m R @ getDebugLoc cfg m R) s
      in if func_of_inst m R \<noteq> nullptr then add_returning (func_of_inst m R) s1 else s1)"

text \<open>The result of \<open>use_store\<close> says whether the store itself is tainted next.\<close>

definition use_store :: "pass_params \<Rightarrow> llmodule \<Rightarrow> addr \<Rightarrow> addr \<Rightarrow> tstate \<Rightarrow> tstate \<times> bool" where
  "use_store cfg m S ptr s =
     (let Ptr = strip m ptr;
          PtrParam = getPointerParameterOrigin m ptr;
          F = func_of_inst m S;
          ParamIdx = arg_no m PtrParam
      in case as_global m Ptr of
           Some g \<Rightarrow>
             (emit GLOBAL S (''  [GLOBAL] Tainted value stored to global variable: '' @ g
                @ getDebugLoc cfg m S) s, False)
         | None \<Rightarrow>
             if PtrParam \<noteq> nullptr then
               ((if F \<noteq> nullptr then
                   emit_if (Verbose cfg) VERBOSE S
                     (''    Tracking: Function '' @ fun_name m F @ '' taints parameter ''
                      @ show_nat ParamIdx)
                    (add_ptr_param F ParamIdx
                      (emit POINTER_PARAM S
                        (''  [POINTER PARAMETER] Tainted value stored through pointer parameter #''
                         @ show_nat ParamIdx @ '' ('' @ getValueName m PtrParam @ '')''
                         @ getDebugLoc cfg m S) s))
                 else s), False)
             else
               let s1 = track_gep m ptr s
               in ((if \<not> ds_count (TaintedPointers s1) Ptr then
                      set_changed True
                        (taint_pointer Ptr S
                          (emit STORE_DEST Ptr (''  [STORE DESTINATION] Marking pointer as tainted: ''
                             @ getValueName m Ptr @ getDebugLoc cfg m S) s1))
                    else s1), True))"

definition propagate :: "pass_params \<Rightarrow> llmodule \<Rightarrow> addr \<Rightarrow> addr \<Rightarrow> tstate \<Rightarrow> tstate" where
  "propagate cfg m V U s =
     (if \<not> ds_count (TaintedValues s) U then
        let s1 = taint_push U (set_level U (level m s V) s)
        in emit FLOWS U (''  [USE] Taint flows to: '' @ getValueName m U @ getDebugLoc cfg m U
             @ func_level m s1 U) s1
      else s)"

subsection \<open>One user, one value, the worklist\<close>

definition forward_use :: "pass_params \<Rightarrow> llmodule \<Rightarrow> addr \<Rightarrow> addr \<Rightarrow> tstate \<Rightarrow> tstate" where
  "forward_use cfg m V U s =
     (if \<not> is_inst m U then s
      else
        let s1 = call_sink cfg m V U
                   (emit_if (Verbose cfg) VERBOSE U
                     (''  [USER] Processing use: '' @ getValueName m U) s)
        in if as_ret m U = Some V then use_return cfg m U s1
           else case as_store m U of
             Some (val, ptr) \<Rightarrow>
               if val = V then
                 (case use_store cfg m U ptr s1 of
                    (s2, goes_on) \<Rightarrow> if goes_on then propagate cfg m V U s2 else s2)
               else propagate cfg m V U s1
           | None \<Rightarrow> propagate cfg m V U s1)"

definition process_value :: "pass_params \<Rightarrow> llmodule \<Rightarrow> addr \<Rightarrow> tstate \<Rightarrow> tstate" where
  "process_value cfg m V s =
     fold (forward_use cfg m V) (getSortedUsers m V)
       (if users_of m V \<noteq> []
        then emit PROCESS V (''[USE] Processing uses of: '' @ getValueName m V) s
        else emit NO_USE V (''[NO USE] No uses of: '' @ getValueName m V) s)"

subsection \<open>Each operation advances the loop\<close>

definition untainted :: "llmodule \<Rightarrow> tstate \<Rightarrow> nat" where
  "untainted m s = card (universe m - set (TaintedValues s)) + card (universe m - set (TaintedPointers s))"

definition advances :: "llmodule \<Rightarrow> tstate \<Rightarrow> tstate \<Rightarrow> bool" where
  "advances m s t = (grows m s t \<and> (changed t \<longrightarrow> changed s \<or> untainted m t < untainted m s))"

lemma grows_untainted: "grows m s t \<Longrightarrow> untainted m t \<le> untainted m s"
  unfolding untainted_def by (intro add_mono card_mono) (auto dest: growsD(1,3))

lemma advances_refl [simp, intro]: "advances m s s"
  by (simp add: advances_def)

lemma advances_trans: "advances m s t \<Longrightarrow> advances m t u \<Longrightarrow> advances m s u"
  unfolding advances_def
  by (metis grows_trans grows_untainted order_less_le_trans order_le_less_trans)

lemma advances_grows: "advances m s t \<Longrightarrow> grows m s t"
  by (simp add: advances_def)

lemma advances_frame: "grows m s t \<Longrightarrow> changed t = changed s \<Longrightarrow> advances m s t"
  by (simp add: advances_def)

lemma advances_new: "grows m s t \<Longrightarrow> untainted m t < untainted m s \<Longrightarrow> advances m s t"
  by (simp add: advances_def)

lemma taint_param_tainted [simp]:
  "TaintedValues (taint_param cfg m mg Callee i l C s) =
     ds_insert (args_of m Callee ! i) (TaintedValues s)"
  "TaintedPointers (taint_param cfg m mg Callee i l C s) = TaintedPointers s"
  "changed (taint_param cfg m mg Callee i l C s) = changed s"
  by (simp_all add: taint_param_def Let_def)

lemma untainted_value:
  "v \<in> universe m \<Longrightarrow> v \<notin> set (TaintedValues s) \<Longrightarrow>
     TaintedValues t = ds_insert v (TaintedValues s) \<Longrightarrow> TaintedPointers t = TaintedPointers s \<Longrightarrow>
     untainted m t < untainted m s"
  using card_taint[of v m "set (TaintedValues s)"] by (simp add: untainted_def)

lemma untainted_pointer:
  "p \<in> universe m \<Longrightarrow> p \<notin> set (TaintedPointers s) \<Longrightarrow>
     TaintedPointers t = ds_insert p (TaintedPointers s) \<Longrightarrow> TaintedValues t = TaintedValues s \<Longrightarrow>
     untainted m t < untainted m s"
  using card_taint[of p m "set (TaintedPointers s)"] by (simp add: untainted_def)

lemma advances_param:
  assumes "i < length (args_of m F)" "args_of m F ! i \<notin> set (TaintedValues s)"
  shows "advances m s (set_changed True (taint_param cfg m mg F i l C s))"
  using assms
  by (intro advances_new grow_intros grows_refl untainted_value[OF nth_args_universe[OF assms(1)]])
    simp_all

lemma advances_call_direct: "advances m s (call_direct cfg m V C Callee argIdx s)"
proof -
  let ?s1 = "if \<not> dm_count (ValueLevel s) C then set_level C (level m s V) s else s"
  have s1: "advances m s (emit CHILD C tx ?s1)" for tx
    by (rule advances_frame) (auto simp: dom_def intro!: grow_intros)
  show ?thesis
    unfolding call_direct_def Let_def
    using advances_trans[OF s1 advances_param] s1 by simp
qed

lemma advances_indirect_target: "advances m s (indirect_target cfg m V C argIdx Target s)"
proof -
  have s1: "advances m s (emit TARGET Target tx s)" for tx
    by (rule advances_frame) (auto intro!: grow_intros)
  show ?thesis
    unfolding indirect_target_def Let_def
    using advances_trans[OF s1 advances_param] s1 by simp
qed

interpretation target_step: keeps_preorder "advances m" "indirect_target cfg m V C argIdx"
    for m cfg V C argIdx
  by unfold_locales (auto intro: advances_indirect_target advances_trans)

lemma advances_emit: "advances m s (emit t v txt s)" "advances m s (emit_if c t v txt s)"
  by (rule advances_frame; auto intro!: grow_intros)+

lemma advances_call_sink: "advances m s (call_sink cfg m V C s)"
  by (auto simp: call_sink_def call_indirect_def Let_def
      intro!: advances_call_direct advances_emit advances_trans[OF advances_emit(1) target_step.R_fold]
      split: option.split)

lemma advances_use_return: "advances m s (use_return cfg m' R s)"
  by (rule advances_frame) (auto simp: use_return_def Let_def intro!: grow_intros)

lemma advances_use_store:
  assumes "as_store m S = Some (v, ptr)"
  shows "advances m s (fst (use_store cfg m S ptr s))"
proof -
  let ?Ptr = "strip m ptr"
  have P: "?Ptr \<in> universe m" using store_universe[OF assms] by simp
  have new: "advances m s (set_changed True (taint_pointer ?Ptr S (emit STORE_DEST ?Ptr tx (track_gep m ptr s))))"
    if "?Ptr \<notin> set (TaintedPointers s)" for tx
    using that P by (intro advances_new grow_intros grows_refl untainted_pointer[OF P]) simp_all
  show ?thesis
    by (auto simp: use_store_def Let_def intro!: new split: option.split)
      (rule advances_frame; auto intro!: grow_intros)+
qed

lemma advances_propagate: "U \<in> universe m \<Longrightarrow> advances m s (propagate cfg m V U s)"
  by (rule advances_frame) (auto simp: propagate_def Let_def intro!: grow_intros)

lemma advances_forward_use: "advances m s (forward_use cfg m V U s)"
proof (cases "is_inst m U")
  case True
  then have U: "U \<in> universe m"
    by (auto simp: is_inst_def intro: inst_universe)
  let ?s1 = "call_sink cfg m V U (emit_if (Verbose cfg) VERBOSE U
      (''  [USER] Processing use: '' @ getValueName m U) s)"
  have s1: "advances m s ?s1"
    using advances_trans advances_emit(2) advances_call_sink by blast
  have st: "advances m s (fst (use_store cfg m U ptr ?s1))" if "as_store m U = Some (V, ptr)" for ptr
    using advances_trans[OF s1 advances_use_store[OF that]] .
  have pr: "advances m s (propagate cfg m V U x)" if "advances m s x" for x
    using advances_trans[OF that advances_propagate[OF U]] .
  show ?thesis
    unfolding forward_use_def Let_def
    using True s1 st pr advances_trans[OF s1 advances_use_return]
    by (auto split: option.split prod.split)
qed (simp add: forward_use_def)

interpretation use_step: keeps_preorder "advances m" "forward_use cfg m V" for m cfg V
  by unfold_locales (auto intro: advances_forward_use advances_trans)

lemma advances_process_value: "advances m s (process_value cfg m V s)"
  unfolding process_value_def
  by (rule advances_trans[OF _ use_step.R_fold]) (simp add: advances_emit)

end
