(* ===== verification/Forward_Loop.thy ===== *)
theory Forward_Loop
  imports Forward
begin

text \<open>
  The two loops of phase 2: \<open>drain\<close> empties the worklist, \<open>forward_loop\<close> alternates it with
  the kill stores and the load scan until nothing changes.
\<close>

subsection \<open>Emptying the worklist\<close>

definition pop_worklist :: "tstate \<Rightarrow> tstate" where
  "pop_worklist s = s\<lparr>Worklist := tl (Worklist s)\<rparr>"

lemma pop_worklist_fields [simp]:
  "Worklist (pop_worklist s) = tl (Worklist s)"
  "TaintedValues (pop_worklist s) = TaintedValues s"
  "TaintedPointers (pop_worklist s) = TaintedPointers s"
  "KilledStores (pop_worklist s) = KilledStores s"
  "FunctionsReturningTaint (pop_worklist s) = FunctionsReturningTaint s"
  "PointerTaintOrigin (pop_worklist s) = PointerTaintOrigin s"
  "ValueLevel (pop_worklist s) = ValueLevel s"
  "FunctionLevel (pop_worklist s) = FunctionLevel s"
  "FunctionsTaintingPointerParams (pop_worklist s) = FunctionsTaintingPointerParams s"
  "FunctionPointerTargets (pop_worklist s) = FunctionPointerTargets s"
  "changed (pop_worklist s) = changed s"
  "discoveredNewFunctions (pop_worklist s) = discoveredNewFunctions s"
  "ptr_params (pop_worklist s) = ptr_params s"
  by (simp_all add: pop_worklist_def ptr_params_def)

lemma grows_pop: "grows m s (pop_worklist s)"
  by (cases "Worklist s") (auto simp: grows_def potential_def)

lemma potential_pop: "Worklist s \<noteq> [] \<Longrightarrow> potential m (pop_worklist s) < potential m s"
  by (cases "Worklist s") (auto simp: potential_def)

function drain :: "pass_params \<Rightarrow> llmodule \<Rightarrow> tstate \<Rightarrow> tstate" where
  "drain cfg m s =
     (if Worklist s = [] then s
      else drain cfg m (process_value cfg m (hd (Worklist s)) (pop_worklist s)))"
  by pat_completeness auto
termination
proof (relation "measure (\<lambda>(cfg, m, s). potential m s)", goal_cases)
  case (2 cfg m s)
  have "potential m (process_value cfg m (hd (Worklist s)) (pop_worklist s)) \<le> potential m (pop_worklist s)"
    by (rule growsD(8)[OF advances_grows[OF advances_process_value]])
  with potential_pop[OF 2, of m] show ?case by simp
qed simp

declare drain.simps [simp del]

lemma drain_empty [simp]: "Worklist (drain cfg m s) = []"
  by (induction cfg m s rule: drain.induct) (subst drain.simps, simp)

lemma advances_pop: "advances m s (pop_worklist s)"
  by (rule advances_frame) (simp_all add: grows_pop)

lemma advances_drain: "advances m s (drain cfg m s)"
proof (induction cfg m s rule: drain.induct)
  case (1 cfg m s)
  show ?case
  proof (cases "Worklist s = []")
    case True
    then show ?thesis by (subst drain.simps) simp
  next
    case False
    from advances_trans[OF advances_trans[OF advances_pop advances_process_value] "1.IH"[OF False]]
    show ?thesis
      using False by (subst drain.simps) simp
  qed
qed

text \<open>A property every value's processing keeps is kept by the whole drain.\<close>

lemma drain_invariant:
  assumes "I s" and "\<And>s. I s \<Longrightarrow> Worklist s \<noteq> [] \<Longrightarrow>
      I (process_value cfg m (hd (Worklist s)) (pop_worklist s))"
  shows "I (drain cfg m s)"
  using assms
proof (induction cfg m s rule: drain.induct)
  case (1 cfg m s)
  then show ?case
    by (cases "Worklist s = []") (simp_all add: drain.simps[of cfg m s])
qed

subsection \<open>Kill stores\<close>

text \<open>
  A store of an untainted value to a tainted pointer, the store itself untainted, that does
  not stand before the instruction that tainted the pointer.
\<close>

definition valid_kill :: "llmodule \<Rightarrow> (addr, addr) dmap \<Rightarrow> addr \<Rightarrow> addr \<Rightarrow> bool" where
  "valid_kill m pto S Ptr =
     (if dm_count pto Ptr then
        let Org = dm_get nullptr pto Ptr
        in if block_of_inst m S = block_of_inst m Org
           then \<not> unseen_at False Org S (block_insts m (block_of_inst m S))
           else True
      else True)"

definition kill_store :: "pass_params \<Rightarrow> llmodule \<Rightarrow> addr \<Rightarrow> tstate \<Rightarrow> tstate" where
  "kill_store cfg m I s =
     (case as_store m I of
        None \<Rightarrow> s
      | Some (StoredVal, ptr) \<Rightarrow>
          let Ptr = strip m ptr
          in if ds_count (TaintedPointers s) Ptr \<and> \<not> ds_count (TaintedValues s) StoredVal
                \<and> \<not> ds_count (TaintedValues s) I \<and> valid_kill m (PointerTaintOrigin s) I Ptr
             then emit KILL I (''[KILL] Store overwrites tainted pointer with non-tainted value: ''
                    @ getValueName m I) (add_killed I s)
             else s)"

definition find_kills :: "pass_params \<Rightarrow> llmodule \<Rightarrow> tstate \<Rightarrow> tstate" where
  "find_kills cfg m s = fold (kill_store cfg m) (all_insts m) s"

lemma kill_store_fields [simp]:
  "Worklist (kill_store cfg m I s) = Worklist s"
  "TaintedValues (kill_store cfg m I s) = TaintedValues s"
  "TaintedPointers (kill_store cfg m I s) = TaintedPointers s"
  "FunctionsReturningTaint (kill_store cfg m I s) = FunctionsReturningTaint s"
  "PointerTaintOrigin (kill_store cfg m I s) = PointerTaintOrigin s"
  "ValueLevel (kill_store cfg m I s) = ValueLevel s"
  "FunctionLevel (kill_store cfg m I s) = FunctionLevel s"
  "FunctionsTaintingPointerParams (kill_store cfg m I s) = FunctionsTaintingPointerParams s"
  "FunctionPointerTargets (kill_store cfg m I s) = FunctionPointerTargets s"
  "changed (kill_store cfg m I s) = changed s"
  "discoveredNewFunctions (kill_store cfg m I s) = discoveredNewFunctions s"
  "ptr_params (kill_store cfg m I s) = ptr_params s"
  by (simp_all add: kill_store_def Let_def split: option.split)

lemma find_kills_fields [simp]:
  "Worklist (find_kills cfg m s) = Worklist s"
  "TaintedValues (find_kills cfg m s) = TaintedValues s"
  "TaintedPointers (find_kills cfg m s) = TaintedPointers s"
  "FunctionsReturningTaint (find_kills cfg m s) = FunctionsReturningTaint s"
  "PointerTaintOrigin (find_kills cfg m s) = PointerTaintOrigin s"
  "ValueLevel (find_kills cfg m s) = ValueLevel s"
  "FunctionLevel (find_kills cfg m s) = FunctionLevel s"
  "FunctionsTaintingPointerParams (find_kills cfg m s) = FunctionsTaintingPointerParams s"
  "FunctionPointerTargets (find_kills cfg m s) = FunctionPointerTargets s"
  "changed (find_kills cfg m s) = changed s"
  "discoveredNewFunctions (find_kills cfg m s) = discoveredNewFunctions s"
  "ptr_params (find_kills cfg m s) = ptr_params s"
  unfolding find_kills_def by (rule fold_keeps[where f = "kill_store cfg m"]; simp)+

text \<open>The stores a collection finds are exactly these, added to those known before.\<close>

definition kills_now :: "llmodule \<Rightarrow> tstate \<Rightarrow> addr \<Rightarrow> bool" where
  "kills_now m s I = (case as_store m I of
      Some (v, ptr) \<Rightarrow> strip m ptr \<in> set (TaintedPointers s) \<and> v \<notin> set (TaintedValues s)
        \<and> I \<notin> set (TaintedValues s) \<and> valid_kill m (PointerTaintOrigin s) I (strip m ptr)
    | None \<Rightarrow> False)"

lemma kill_store_killed:
  "set (KilledStores (kill_store cfg m I s)) =
     set (KilledStores s) \<union> (if kills_now m s I then {I} else {})"
  by (auto simp: kill_store_def kills_now_def Let_def split: option.split)

lemma kills_now_step: "kills_now m (kill_store cfg m I s) J = kills_now m s J"
  by (simp add: kills_now_def split: option.split)

lemma find_kills_killed:
  "set (KilledStores (find_kills cfg m s)) =
     set (KilledStores s) \<union> {I \<in> set (all_insts m). kills_now m s I}"
proof -
  have "set (KilledStores (fold (kill_store cfg m) is s)) =
      set (KilledStores s) \<union> {I \<in> set is. kills_now m s I}" for "is"
    by (induction "is" arbitrary: s) (auto simp: kill_store_killed kills_now_step)
  then show ?thesis by (simp add: find_kills_def)
qed

lemma advances_kill_store: "advances m s (kill_store cfg m' I s)"
  by (rule advances_frame)
    (auto simp: kill_store_def Let_def intro!: grow_intros split: option.split)

interpretation kill_step: keeps_preorder "advances m" "kill_store cfg m'" for m cfg m'
  by unfold_locales (auto intro: advances_kill_store advances_trans)

lemma advances_find_kills: "advances m s (find_kills cfg m' s)"
  by (simp add: find_kills_def kill_step.R_fold)

subsection \<open>The outer loop\<close>

text \<open>\<open>PointersToScan\<close>: the tainted pointers in address order, without those scanned.\<close>

definition pointers_to_scan :: "addr dset \<Rightarrow> tstate \<Rightarrow> addr list" where
  "pointers_to_scan Scanned s = filter (\<lambda>p. \<not> ds_count Scanned p) (sort (TaintedPointers s))"

definition mark_scanned :: "addr list \<Rightarrow> addr dset \<Rightarrow> addr dset" where
  "mark_scanned pts Scanned = fold ds_insert pts Scanned"

text \<open>The body of the loop: the state and the scanned pointers after one round.\<close>

definition forward_round :: "pass_params \<Rightarrow> llmodule \<Rightarrow> addr dset \<Rightarrow> tstate \<Rightarrow> addr dset \<times> tstate" where
  "forward_round cfg m ScannedPointers s =
     (let s1 = drain cfg m (set_changed False s);
          s2 = find_kills cfg m s1;
          PointersToScan = pointers_to_scan ScannedPointers s2
      in case scanLoadsFromTaintedPointers cfg m PointersToScan (Some (KilledStores s2)) s2 of
           (s3, found) \<Rightarrow>
             (mark_scanned PointersToScan ScannedPointers,
              if found then set_changed True s3 else s3))"

lemma forward_round_untainted:
  assumes "forward_round cfg m sc s = (sc', t)"
  shows "grows m s t" "changed t \<Longrightarrow> untainted m t < untainted m s"
proof -
  let ?s0 = "set_changed False s"
  let ?s2 = "find_kills cfg m (drain cfg m ?s0)"
  let ?pts = "pointers_to_scan sc ?s2"
  obtain s3 found where sc3:
    "scanLoadsFromTaintedPointers cfg m ?pts (Some (KilledStores ?s2)) ?s2 = (s3, found)" by fastforce
  have t: "t = (if found then set_changed True s3 else s3)"
    using assms sc3 by (simp add: forward_round_def Let_def)
  have 0: "grows m s ?s0" by (intro grow_intros grows_refl)
  have 2: "advances m ?s0 ?s2"
    using advances_trans[OF advances_drain advances_find_kills] .
  have 3: "grows m ?s2 s3"
    using grows_scan[OF grows_refl, of m ?s2 cfg ?pts "Some (KilledStores ?s2)"] sc3 by simp
  have s03: "grows m s s3"
    using grows_trans[OF grows_trans[OF 0 advances_grows[OF 2]] 3] .
  then show "grows m s t"
    by (auto simp: t intro: grow_intros)
  show "untainted m t < untainted m s" if ch: "changed t"
  proof (cases found)
    case True
    have "set (TaintedValues s3) \<noteq> set (TaintedValues ?s2)"
      using scan_changed_iff[of cfg m ?pts "Some (KilledStores ?s2)" ?s2] sc3 True by simp
    with growsD(1,2)[OF 3] have "\<exists>v \<in> universe m. v \<notin> set (TaintedValues ?s2) \<and> v \<in> set (TaintedValues s3)"
      by blast
    then have "card (universe m - set (TaintedValues s3)) < card (universe m - set (TaintedValues ?s2))"
      using growsD(1)[OF 3] by (intro psubset_card_mono) auto
    moreover have "TaintedPointers s3 = TaintedPointers ?s2"
      using scan_fields(1)[of cfg m ?pts "Some (KilledStores ?s2)" ?s2] sc3 by simp
    ultimately have "untainted m t < untainted m ?s2"
      by (simp add: t True untainted_def)
    also have "\<dots> \<le> untainted m s"
      using grows_untainted[OF grows_trans[OF 0 advances_grows[OF 2]]] .
    finally show ?thesis .
  next
    case False
    have "changed s3 = changed ?s2"
      using scan_fields(7)[of cfg m ?pts "Some (KilledStores ?s2)" ?s2] sc3 by simp
    with ch False have "changed ?s2" by (simp add: t)
    with 2 have "untainted m ?s2 < untainted m ?s0" by (simp add: advances_def)
    with grows_untainted[OF 3] show ?thesis
      by (simp add: t False untainted_def)
  qed
qed

function forward_loop :: "pass_params \<Rightarrow> llmodule \<Rightarrow> addr dset \<Rightarrow> tstate \<Rightarrow> tstate" where
  "forward_loop cfg m ScannedPointers s =
     (case forward_round cfg m ScannedPointers s of
        (ScannedPointers', s') \<Rightarrow>
          if changed s' then forward_loop cfg m ScannedPointers' s' else s')"
  by pat_completeness auto
termination
proof (relation "measure (\<lambda>(cfg, m, sc, s). untainted m s)", goal_cases)
  case (2 cfg m sc s sc' s')
  then have "forward_round cfg m sc s = (sc', s')" by simp
  from forward_round_untainted(2)[OF this 2(2)] show ?case by simp
qed simp

declare forward_loop.simps [simp del]

definition forward :: "pass_params \<Rightarrow> llmodule \<Rightarrow> tstate \<Rightarrow> tstate" where
  "forward cfg m s = forward_loop cfg m [] s"

lemma grows_forward_loop: "grows m s (forward_loop cfg m sc s)"
proof (induction cfg m sc s rule: forward_loop.induct)
  case (1 cfg m sc s)
  obtain sc' s' where r: "forward_round cfg m sc s = (sc', s')" by fastforce
  show ?case
    using forward_round_untainted(1)[OF r] "1.IH"[OF r[symmetric]] grows_trans
    by (subst forward_loop.simps) (auto simp: r)
qed

lemma grows_forward [grow_intros]: "grows m s x \<Longrightarrow> grows m s (forward cfg m x)"
  by (auto simp: forward_def intro: grows_trans grows_forward_loop)

subsection \<open>Properties\<close>

text \<open>
  C16: The kill stores. A collection adds exactly the stores of the module that store an
  untainted value to a tainted pointer, are not tainted themselves, and do not stand before
  the instruction that tainted the pointer in the same block.
\<close>

theorem kill_stores:
  assumes "\<And>b. distinct (block_insts m b)"
  shows "K \<in> set (KilledStores (find_kills cfg m s)) \<longleftrightarrow>
     K \<in> set (KilledStores s) \<or>
     (K \<in> set (all_insts m) \<and> (\<exists>v ptr. as_store m K = Some (v, ptr)
        \<and> strip m ptr \<in> set (TaintedPointers s) \<and> v \<notin> set (TaintedValues s) \<and> K \<notin> set (TaintedValues s)
        \<and> \<not> (\<exists>Org. map_of (PointerTaintOrigin s) (strip m ptr) = Some Org
             \<and> block_of_inst m K = block_of_inst m Org \<and> K \<in> set (block_insts m (block_of_inst m K))
             \<and> \<not> not_after (block_insts m (block_of_inst m K)) Org K)))"
proof -
  have vk: "valid_kill m pto K p \<longleftrightarrow> \<not> (\<exists>Org. map_of pto p = Some Org
      \<and> block_of_inst m K = block_of_inst m Org \<and> K \<in> set (block_insts m (block_of_inst m K))
      \<and> \<not> not_after (block_insts m (block_of_inst m K)) Org K)" for pto p
    by (cases "map_of pto p") (auto simp: valid_kill_def dm_get_def unseen_at_iff[OF assms])
  have "kills_now m s K \<longleftrightarrow> (\<exists>v ptr. as_store m K = Some (v, ptr)
      \<and> strip m ptr \<in> set (TaintedPointers s) \<and> v \<notin> set (TaintedValues s) \<and> K \<notin> set (TaintedValues s)
      \<and> valid_kill m (PointerTaintOrigin s) K (strip m ptr))"
    by (cases "as_store m K") (auto simp: kills_now_def)
  then show ?thesis by (simp add: find_kills_killed vk)
qed

lemma ex_calls_distinct: "distinct (block_insts ex_calls b)"
  by (simp add: block_insts_def ex_calls_def split: option.split)

lemma kill_stores_witness: "16 \<in> set (KilledStores (find_kills ex_cfg ex_calls (taint_pointer 12 13 init_state)))"
proof -
  have "16 \<in> set (all_insts ex_calls)" "as_store ex_calls 16 = Some (14, 12)" "strip ex_calls 12 = 12"
    "TaintedPointers (taint_pointer 12 13 init_state) = [12]" "TaintedValues init_state = []"
    "PointerTaintOrigin (taint_pointer 12 13 init_state) = [(12, 13)]"
    "block_of_inst ex_calls 16 = 10" "block_of_inst ex_calls 13 = 10"
    "block_insts ex_calls 10 = [12, 13, 14, 15, 16, 17, 18, 19]" by code_simp+
  moreover have "not_after [12, 13, 14, 15, 16, 17, 18, 19] (13::nat) 16"
    unfolding seen_at_iff[symmetric] by code_simp
  ultimately show ?thesis
    using kill_stores[OF ex_calls_distinct, where K = 16 and cfg = ex_cfg and s = "taint_pointer 12 13 init_state"]
    by auto
qed

end
