(* ===== verification/Upward.thy ===== *)
theory Upward
  imports Forward_Loop
begin

text \<open>
  Phase 5 of \<open>run\<close>, one iteration of it: the call sites of the functions that return taint
  (5a), the call sites of the functions that taint what a pointer parameter points to (5b),
  and the propagation that uses them up, which differs from the forward one: calls do not
  enter the callee, returns and stores are tainted themselves, and no store kills.
\<close>

subsection \<open>5a: call sites of functions that return taint\<close>

definition raise_function :: "addr \<Rightarrow> int \<Rightarrow> tstate \<Rightarrow> tstate" where
  "raise_function CallerFunc newLevel s =
     (if CallerFunc \<noteq> nullptr \<and> \<not> dm_count (FunctionLevel s) CallerFunc
      then set_flevel CallerFunc newLevel s else s)"

fun returning_call :: "pass_params \<Rightarrow> llmodule \<Rightarrow> addr \<Rightarrow> addr \<Rightarrow> tstate \<times> bool \<Rightarrow> tstate \<times> bool" where
  "returning_call cfg m TaintedFunc I (s, foundAnyCallers) =
     (case as_call m I of
        None \<Rightarrow> (s, foundAnyCallers)
      | Some (Callee, cv, args) \<Rightarrow>
          if Callee \<noteq> TaintedFunc then (s, foundAnyCallers)
          else if ds_count (TaintedValues s) I then (s, True)
          else
            let newLevel = level_of_function (FunctionLevel s) TaintedFunc + 1;
                s1 = raise_function (func_of_inst m I) newLevel (set_level I newLevel s)
            in (taint_push I
                  (emit UPWARD I (''[UPWARD-INTERPROC] Call to '' @ fun_name m TaintedFunc
                     @ '' returns tainted value'' @ getDebugLoc cfg m I @ func_level m s1 I) s1),
                True))"

definition callers_of_returning :: "pass_params \<Rightarrow> llmodule \<Rightarrow> addr \<Rightarrow> tstate \<Rightarrow> tstate" where
  "callers_of_returning cfg m TaintedFunc s =
     (case fold (returning_call cfg m TaintedFunc) (all_insts m)
             (emit_if (Verbose cfg) VERBOSE TaintedFunc
                (''Finding callers of: '' @ fun_name m TaintedFunc @ '' (returns taint)'') s, False)
      of (s1, foundAnyCallers) \<Rightarrow>
        if \<not> foundAnyCallers
        then emit UPWARD TaintedFunc (''[UPWARD-INTERPROC] No callers found for ''
               @ fun_name m TaintedFunc @ '' (function returns tainted value)'') s1
        else s1)"

definition step_5a :: "pass_params \<Rightarrow> llmodule \<Rightarrow> tstate \<Rightarrow> tstate" where
  "step_5a cfg m s = fold (callers_of_returning cfg m) (sort (FunctionsReturningTaint s)) s"

subsection \<open>5b: call sites of functions that taint pointer parameters\<close>

text \<open>A pointer to a local variable stored in the field \<open>GEP\<close> of the struct passed.\<close>

definition struct_store :: "llmodule \<Rightarrow> addr \<Rightarrow> addr \<Rightarrow> int \<Rightarrow> addr \<Rightarrow> tstate \<Rightarrow> tstate" where
  "struct_store m C G fieldIdx GU s =
     (case as_store m GU of
        None \<Rightarrow> s
      | Some (v, p) \<Rightarrow>
          let StoredVal = strip m v
          in if p = G \<and> is_pointer (vinfo_of m StoredVal) \<and> as_alloca m StoredVal \<noteq> None
                \<and> \<not> ds_count (TaintedPointers s) StoredVal
             then taint_pointer StoredVal C
                    (emit STORE_DEST StoredVal (''  [UPWARD-INTERPROC] Marking struct field ''
                       @ show_int fieldIdx @ '' target as tainted: '' @ getValueName m StoredVal
                       @ func_level m s C) s)
             else s)"

definition struct_user :: "llmodule \<Rightarrow> addr \<Rightarrow> int list \<Rightarrow> addr \<Rightarrow> tstate \<Rightarrow> tstate" where
  "struct_user m C accessedFields U s =
     (case as_gep m U of
        None \<Rightarrow> s
      | Some (p, t, is) \<Rightarrow>
          let fieldIdx = (case last_field m is of Some c \<Rightarrow> c | None \<Rightarrow> -1)
          in if accessedFields = [] \<or> fieldIdx \<in> set accessedFields
             then fold (struct_store m C U fieldIdx) (users_of m U) s
             else s)"

definition struct_fields :: "llmodule \<Rightarrow> addr \<Rightarrow> nat \<Rightarrow> addr \<Rightarrow> addr \<Rightarrow> tstate \<Rightarrow> tstate" where
  "struct_fields m TaintedFunc ParamIdx C PointedVar s =
     (if as_alloca m PointedVar = Some True
      then fold (struct_user m C
                   (dm_get [] (dm_get [] (FunctionParamFieldAccess s) TaintedFunc) ParamIdx))
             (users_of m PointedVar) s
      else s)"

text \<open>The variable an argument points to: an \<open>alloca\<close>, or the base of a GEP.\<close>

definition pointed_var :: "llmodule \<Rightarrow> addr \<Rightarrow> addr" where
  "pointed_var m ActualArg =
     (if as_alloca m ActualArg \<noteq> None then ActualArg
      else case as_gep m ActualArg of Some (p, t, is) \<Rightarrow> strip m p | None \<Rightarrow> nullptr)"

text \<open>Case 1: the argument is itself a pointer parameter of the caller.\<close>

definition pass_through :: "pass_params \<Rightarrow> llmodule \<Rightarrow> addr \<Rightarrow> addr \<Rightarrow> addr \<Rightarrow> tstate \<Rightarrow> tstate" where
  "pass_through cfg m TaintedFunc C ArgParam s =
     (let CallerFunc = func_of_inst m C;
          CallerParamIdx = arg_no m ArgParam
      in if CallerFunc = nullptr then s
         else if ptr_param_known s CallerFunc CallerParamIdx then s
         else
           let s1 = raise_function CallerFunc
                      (level_of_function (FunctionLevel s) TaintedFunc + 1)
                      (set_discovered True (add_ptr_param CallerFunc CallerParamIdx s))
           in emit POINTER_PARAM C (''[POINTER PARAMETER] Call to '' @ fun_name m TaintedFunc
                @ '' passes through pointer parameter '' @ show_nat CallerParamIdx @ '' of ''
                @ fun_name m CallerFunc @ getDebugLoc cfg m C @ func_level m s1 C) s1)"

text \<open>Case 2: the argument is the address of a variable, which the call taints.\<close>

definition taint_pointed :: "pass_params \<Rightarrow> llmodule \<Rightarrow> addr \<Rightarrow> addr \<Rightarrow> nat \<Rightarrow> addr
    \<Rightarrow> tstate \<Rightarrow> tstate" where
  "taint_pointed cfg m TaintedFunc C ParamIdx PointedVar s =
     (if PointedVar = nullptr \<or> ds_count (TaintedPointers s) PointedVar then s
      else
        let s1 = raise_function (func_of_inst m C)
                   (level_of_function (FunctionLevel s) TaintedFunc + 1)
                   (taint_pointer PointedVar C s);
            s2 = emit UPWARD C (''[UPWARD-INTERPROC] Call to '' @ fun_name m TaintedFunc
                   @ '' taints argument '' @ show_nat ParamIdx @ '' (local variable)''
                   @ getDebugLoc cfg m C @ func_level m s1 C) s1;
            s3 = emit STORE_DEST PointedVar (''  [STORE DESTINATION] Marking pointer as tainted via call: ''
                   @ getValueName m PointedVar @ func_level m s2 C) s2
        in struct_fields m TaintedFunc ParamIdx C PointedVar s3)"

definition param_arg :: "pass_params \<Rightarrow> llmodule \<Rightarrow> addr \<Rightarrow> addr \<Rightarrow> addr list \<Rightarrow> nat
    \<Rightarrow> tstate \<Rightarrow> tstate" where
  "param_arg cfg m TaintedFunc C args ParamIdx s =
     (if length args \<le> ParamIdx then s
      else
        let ActualArg = args ! ParamIdx;
            ArgParam = getPointerParameterOrigin m ActualArg
        in if ArgParam \<noteq> nullptr then pass_through cfg m TaintedFunc C ArgParam s
           else taint_pointed cfg m TaintedFunc C ParamIdx (pointed_var m ActualArg) s)"

fun param_call :: "pass_params \<Rightarrow> llmodule \<Rightarrow> addr \<Rightarrow> nat dset \<Rightarrow> addr \<Rightarrow> tstate \<times> bool
    \<Rightarrow> tstate \<times> bool" where
  "param_call cfg m TaintedFunc TaintedParams I (s, foundAnyCallers) =
     (case as_call m I of
        None \<Rightarrow> (s, foundAnyCallers)
      | Some (Callee, cv, args) \<Rightarrow>
          if Callee \<noteq> TaintedFunc then (s, foundAnyCallers)
          else (fold (param_arg cfg m TaintedFunc I args) (sort TaintedParams) s, True))"

fun callers_of_tainting :: "pass_params \<Rightarrow> llmodule \<Rightarrow> addr \<times> nat dset \<Rightarrow> tstate \<Rightarrow> tstate" where
  "callers_of_tainting cfg m (TaintedFunc, TaintedParams) s =
     (case fold (param_call cfg m TaintedFunc TaintedParams) (all_insts m)
             (emit_if (Verbose cfg) VERBOSE TaintedFunc
                (''Finding callers of: '' @ fun_name m TaintedFunc @ '' (taints pointer params)'') s, False)
      of (s1, foundAnyCallers) \<Rightarrow>
        if \<not> foundAnyCallers
        then emit UPWARD TaintedFunc (''[UPWARD-INTERPROC] No callers found for ''
               @ fun_name m TaintedFunc @ '' (function taints pointer parameter''
               @ (case TaintedParams of [i] \<Rightarrow> '' #'' @ show_nat i | _ \<Rightarrow> ''s'') @ '')'') s1
        else s1)"

definition step_5b :: "pass_params \<Rightarrow> llmodule \<Rightarrow> tstate \<Rightarrow> tstate" where
  "step_5b cfg m s =
     fold (callers_of_tainting cfg m) (sort_key fst (FunctionsTaintingPointerParams s)) s"

subsection \<open>Propagation\<close>

fun upward_use :: "pass_params \<Rightarrow> llmodule \<Rightarrow> addr \<Rightarrow> addr \<Rightarrow> tstate \<times> bool \<Rightarrow> tstate \<times> bool" where
  "upward_use cfg m V U (s, hasUses) =
     (if \<not> is_inst m U then (s, hasUses)
      else if ds_count (TaintedValues s) U
      then (emit_if (Verbose cfg) VERBOSE U (''  [SKIP] Already tainted: '' @ getValueName m U) s, hasUses)
      else
        let s1 = taint_push U (set_level U (level m s V) s);
            s2 = emit FLOWS U (''  [USE] Taint flows to: '' @ getValueName m U @ getDebugLoc cfg m U
                   @ func_level m s1 U) s1;
            s3 = (case processStoreForTaint cfg m U V s2 of
                    (s', True) \<Rightarrow> set_discovered True s' | (s', False) \<Rightarrow> s');
            F = func_of_inst m U
        in (if as_ret m U = Some V then
              let s4 = emit RETURNED U (''  [RETURN] Tainted value is returned'' @ getDebugLoc cfg m U
                         @ func_level m s3 U) s3
              in if F \<noteq> nullptr \<and> \<not> ds_count (FunctionsReturningTaint s4) F
                 then set_discovered True (add_returning F s4) else s4
            else s3, True))"

definition upward_value :: "pass_params \<Rightarrow> llmodule \<Rightarrow> addr \<Rightarrow> tstate \<Rightarrow> tstate" where
  "upward_value cfg m V s =
     (case fold (upward_use cfg m V) (getSortedUsers m V)
             (emit_if (Verbose cfg) PROCESS V (''[USE] Processing uses of: '' @ getValueName m V) s, False)
      of (s1, hasUses) \<Rightarrow>
        emit_if (\<not> hasUses \<and> Verbose cfg) NO_USE V (''[NO USE] No uses of: '' @ getValueName m V) s1)"

subsection \<open>Everything here makes progress\<close>

text \<open>
  What can still be discovered: functions that return taint and (function, parameter) pairs,
  among the functions and the argument numbers of the module.
\<close>

definition functions_of :: "llmodule \<Rightarrow> addr set" where
  "functions_of m = func_of_inst m ` universe m"

definition pairs_of :: "llmodule \<Rightarrow> (addr \<times> nat) set" where
  "pairs_of m = functions_of m \<times> (arg_no m ` universe m)"

lemma finite_functions_of [simp]: "finite (functions_of m)" "finite (pairs_of m)"
  by (simp_all add: functions_of_def pairs_of_def)

definition undiscovered :: "llmodule \<Rightarrow> tstate \<Rightarrow> nat" where
  "undiscovered m s = card (functions_of m - set (FunctionsReturningTaint s))
     + card (pairs_of m - ptr_params s)"

text \<open>
  \<open>discovers m s t\<close>: the state grows, and the three signs of a discovery the loop looks at
  each come with something new discovered; and without the flag nothing was discovered.
\<close>

definition news :: "tstate \<Rightarrow> tstate \<Rightarrow> bool" where
  "news s t = (length (FunctionsReturningTaint s) < length (FunctionsReturningTaint t)
     \<or> length (FunctionsTaintingPointerParams s) < length (FunctionsTaintingPointerParams t))"

definition discovers :: "llmodule \<Rightarrow> tstate \<Rightarrow> tstate \<Rightarrow> bool" where
  "discovers m s t = (grows m s t
     \<and> (discoveredNewFunctions t \<longrightarrow> discoveredNewFunctions s \<or> undiscovered m t < undiscovered m s)
     \<and> (news s t \<longrightarrow> undiscovered m t < undiscovered m s)
     \<and> (discoveredNewFunctions s \<longrightarrow> discoveredNewFunctions t)
     \<and> (\<not> discoveredNewFunctions t \<longrightarrow>
           set (FunctionsReturningTaint t) = set (FunctionsReturningTaint s) \<and> ptr_params t = ptr_params s))"

lemma grows_undiscovered: "grows m s t \<Longrightarrow> undiscovered m t \<le> undiscovered m s"
  unfolding undiscovered_def
  by (intro add_mono card_mono Diff_mono finite_Diff finite_functions_of order_refl growsD(6,7))

lemma discovers_refl [simp, intro]: "discovers m s s"
  by (simp add: discovers_def news_def)

lemma news_trans: "news s u \<Longrightarrow> news s t \<or> news t u"
  by (auto simp: news_def)

lemma discovers_trans:
  assumes "discovers m s t" "discovers m t u"
  shows "discovers m s u"
proof -
  have g: "grows m s t" "grows m t u"
    using assms by (auto simp: discovers_def)
  note le = grows_undiscovered[OF g(1)] grows_undiscovered[OF g(2)]
  have "grows m s u" using g by (rule grows_trans)
  moreover have "undiscovered m u < undiscovered m s" if "news s u"
    using news_trans[OF that, of t] assms le by (auto simp: discovers_def)
  moreover have "discoveredNewFunctions s \<or> undiscovered m u < undiscovered m s"
    if "discoveredNewFunctions u"
    using that assms le by (auto simp: discovers_def)
  ultimately show ?thesis using assms by (auto simp: discovers_def)
qed

lemma discovers_grows: "discovers m s t \<Longrightarrow> grows m s t"
  by (simp add: discovers_def)

lemma discovers_frame:
  "grows m s t \<Longrightarrow> discoveredNewFunctions t = discoveredNewFunctions s \<Longrightarrow>
     FunctionsReturningTaint t = FunctionsReturningTaint s \<Longrightarrow>
     FunctionsTaintingPointerParams t = FunctionsTaintingPointerParams s \<Longrightarrow> discovers m s t"
  by (simp add: discovers_def news_def ptr_params_def)

lemma discovers_new: "grows m s t \<Longrightarrow> undiscovered m t < undiscovered m s \<Longrightarrow>
     discoveredNewFunctions t \<Longrightarrow> discovers m s t"
  by (simp add: discovers_def)

lemma undiscovered_pair:
  assumes "(f, i) \<in> pairs_of m" "(f, i) \<notin> ptr_params s" "ptr_params t = insert (f, i) (ptr_params s)"
    "FunctionsReturningTaint t = FunctionsReturningTaint s"
  shows "undiscovered m t < undiscovered m s"
proof -
  have "card (pairs_of m - ptr_params t) < card (pairs_of m - ptr_params s)"
    using assms by (intro psubset_card_mono) auto
  then show ?thesis by (simp add: undiscovered_def assms(4))
qed

lemma undiscovered_function:
  assumes "f \<in> functions_of m" "f \<notin> set (FunctionsReturningTaint s)"
    "FunctionsReturningTaint t = ds_insert f (FunctionsReturningTaint s)" "ptr_params t = ptr_params s"
  shows "undiscovered m t < undiscovered m s"
proof -
  have "card (functions_of m - set (FunctionsReturningTaint t)) <
      card (functions_of m - set (FunctionsReturningTaint s))"
    using assms by (intro psubset_card_mono) auto
  then show ?thesis by (simp add: undiscovered_def assms(4))
qed

lemma func_in_functions: "func_of_inst m I \<noteq> nullptr \<Longrightarrow> func_of_inst m I \<in> functions_of m"
  unfolding functions_of_def
  by (rule imageI, rule kind_universe)
    (auto simp: func_of_inst_def inst_of_def split: option.splits vkind.splits)

lemma param_in_universe: "is_ptr_arg m a \<Longrightarrow> a \<in> universe m"
  by (rule kind_universe) (auto simp: is_ptr_arg_def)

lemma origin_in_universe:
  "getPointerParameterOrigin m p \<noteq> nullptr \<Longrightarrow> getPointerParameterOrigin m p \<in> universe m"
  by (intro param_in_universe from_param_is_param[OF origin_sound]) auto

lemma pair_in_pairs:
  "func_of_inst m I \<noteq> nullptr \<Longrightarrow> getPointerParameterOrigin m p \<noteq> nullptr \<Longrightarrow>
     (func_of_inst m I, arg_no m (getPointerParameterOrigin m p)) \<in> pairs_of m"
  using func_in_functions origin_in_universe by (auto simp: pairs_of_def)

lemma grows_raise [grow_intros]: "grows m s x \<Longrightarrow> grows m s (raise_function f l x)"
  by (auto simp: raise_function_def intro: grow_intros)

lemma raise_fields [simp]:
  "Worklist (raise_function f l s) = Worklist s"
  "TaintedValues (raise_function f l s) = TaintedValues s"
  "TaintedPointers (raise_function f l s) = TaintedPointers s"
  "KilledStores (raise_function f l s) = KilledStores s"
  "FunctionsReturningTaint (raise_function f l s) = FunctionsReturningTaint s"
  "PointerTaintOrigin (raise_function f l s) = PointerTaintOrigin s"
  "ValueLevel (raise_function f l s) = ValueLevel s"
  "FunctionsTaintingPointerParams (raise_function f l s) = FunctionsTaintingPointerParams s"
  "discoveredNewFunctions (raise_function f l s) = discoveredNewFunctions s"
  "ptr_params (raise_function f l s) = ptr_params s"
  by (simp_all add: raise_function_def)

end
