(* ===== verification/Upward_Loop.thy ===== *)
theory Upward_Loop
  imports Upward
begin

text \<open>
  The loops of phase 5: \<open>upward_drain\<close> empties the worklist, \<open>upward_scan\<close> repeats it with
  the load scan until no tainted pointer is left unscanned, \<open>upward_loop\<close> repeats the whole
  iteration as long as it discovers a function or a parameter. First every operation is shown
  to make progress in the sense of \<open>discovers\<close>.
\<close>

subsection \<open>5a\<close>

lemma discovers_returning_call: "discovers m (fst x) (fst (returning_call cfg m TF I x))"
  by (cases x)
    (auto simp: Let_def dest: call_universe intro!: discovers_frame grow_intros split: option.split)

lemma discovers_emit: "discovers m s (emit t v tx s)" "discovers m s (emit_if c t v tx s)"
  by (rule discovers_frame; auto intro!: grow_intros)+

interpretation returning_step: keeps_preorder
    "\<lambda>x y. discovers m (fst x) (fst y)" "returning_call cfg m TF" for m cfg TF
  by unfold_locales (simp_all only: discovers_returning_call discovers_refl, blast intro: discovers_trans)

lemma discovers_callers_of_returning: "discovers m s (callers_of_returning cfg m TF s)"
proof -
  let ?x = "(emit_if (Verbose cfg) VERBOSE TF
      (''Finding callers of: '' @ fun_name m TF @ '' (returns taint)'') s, False)"
  obtain s1 f where r: "fold (returning_call cfg m TF) (all_insts m) ?x = (s1, f)" by fastforce
  have "discovers m (emit_if (Verbose cfg) VERBOSE TF
      (''Finding callers of: '' @ fun_name m TF @ '' (returns taint)'') s) s1"
    using returning_step.R_fold[of m ?x cfg TF "all_insts m"] unfolding r fst_conv .
  then have s1: "discovers m s s1"
    by (rule discovers_trans[OF discovers_emit(2)])
  show ?thesis
    unfolding callers_of_returning_def r prod.case using s1 discovers_trans[OF s1 discovers_emit(1)] by simp
qed

interpretation step_5a_step: keeps_preorder "discovers m" "callers_of_returning cfg m" for m cfg
  by unfold_locales (auto intro: discovers_callers_of_returning discovers_trans)

lemma discovers_5a: "discovers m s (step_5a cfg m s)"
  by (simp add: step_5a_def step_5a_step.R_fold)

subsection \<open>5b\<close>

lemma discovers_struct_store: "discovers m s (struct_store m C G ix GU s)"
  by (rule discovers_frame)
    (auto simp: struct_store_def Let_def dest: store_universe intro!: grow_intros split: option.split)

interpretation struct_store_step: keeps_preorder "discovers m" "struct_store m C G ix" for m C G ix
  by unfold_locales (auto intro: discovers_struct_store discovers_trans)

lemma discovers_struct_user: "discovers m s (struct_user m C acc U s)"
  by (auto simp: struct_user_def Let_def intro: struct_store_step.R_fold split: option.split)

interpretation struct_user_step: keeps_preorder "discovers m" "struct_user m C acc" for m C acc
  by unfold_locales (auto intro: discovers_struct_user discovers_trans)

lemma discovers_struct_fields: "discovers m s (struct_fields m TF i C PV s)"
  by (simp add: struct_fields_def struct_user_step.R_fold)

lemma discovers_pass_through:
  assumes "getPointerParameterOrigin m a = P" "P \<noteq> nullptr"
  shows "discovers m s (pass_through cfg m TF C P s)"
proof (cases "func_of_inst m C = nullptr \<or> ptr_param_known s (func_of_inst m C) (arg_no m P)")
  case True
  then show ?thesis by (auto simp: pass_through_def Let_def)
next
  case False
  then have "(func_of_inst m C, arg_no m P) \<in> pairs_of m"
    using pair_in_pairs[of m C a] assms by auto
  with False show ?thesis
    by (intro discovers_new undiscovered_pair[of "func_of_inst m C" "arg_no m P"])
      (auto simp: pass_through_def Let_def intro!: grow_intros)
qed

lemma pointed_var_universe: "pointed_var m a \<noteq> nullptr \<Longrightarrow> pointed_var m a \<in> universe m"
  by (auto simp: pointed_var_def dest: gep_universe intro: alloca_universe split: option.splits)

lemma discovers_taint_pointed:
  assumes "PV \<noteq> nullptr \<longrightarrow> PV \<in> universe m"
  shows "discovers m s (taint_pointed cfg m TF C i PV s)"
proof (cases "PV = nullptr \<or> PV \<in> set (TaintedPointers s)")
  case True
  then show ?thesis by (auto simp: taint_pointed_def)
next
  case False
  then have "discovers m s (raise_function f l (taint_pointer PV C s))" for f l
    using assms by (intro discovers_frame) (auto intro!: grow_intros)
  with False show ?thesis
    by (auto simp: taint_pointed_def Let_def
        intro!: discovers_trans[OF _ discovers_struct_fields] discovers_trans[OF _ discovers_emit(1)])
qed

lemma discovers_param_arg: "discovers m s (param_arg cfg m TF C args i s)"
  using discovers_pass_through discovers_taint_pointed pointed_var_universe
  by (auto simp: param_arg_def Let_def)

interpretation param_arg_step: keeps_preorder "discovers m" "param_arg cfg m TF C args"
    for m cfg TF C args
  by unfold_locales (auto intro: discovers_param_arg discovers_trans)

lemma discovers_param_call: "discovers m (fst x) (fst (param_call cfg m TF ps I x))"
  by (cases x) (auto intro: param_arg_step.R_fold split: option.split)

interpretation param_call_step: keeps_preorder
    "\<lambda>x y. discovers m (fst x) (fst y)" "param_call cfg m TF ps" for m cfg TF ps
  by unfold_locales (simp_all only: discovers_param_call discovers_refl, blast intro: discovers_trans)

lemma discovers_callers_of_tainting: "discovers m s (callers_of_tainting cfg m fp s)"
proof (cases fp)
  case (Pair TF ps)
  let ?x = "(emit_if (Verbose cfg) VERBOSE TF
      (''Finding callers of: '' @ fun_name m TF @ '' (taints pointer params)'') s, False)"
  obtain s1 f where r: "fold (param_call cfg m TF ps) (all_insts m) ?x = (s1, f)" by fastforce
  have "discovers m (emit_if (Verbose cfg) VERBOSE TF
      (''Finding callers of: '' @ fun_name m TF @ '' (taints pointer params)'') s) s1"
    using param_call_step.R_fold[of m ?x cfg TF ps "all_insts m"] unfolding r fst_conv .
  then have s1: "discovers m s s1"
    by (rule discovers_trans[OF discovers_emit(2)])
  show ?thesis
    unfolding Pair callers_of_tainting.simps r prod.case using s1 discovers_trans[OF s1 discovers_emit(1)] by simp
qed

interpretation step_5b_step: keeps_preorder "discovers m" "callers_of_tainting cfg m" for m cfg
  by unfold_locales (auto intro: discovers_callers_of_tainting discovers_trans)

lemma discovers_5b: "discovers m s (step_5b cfg m s)"
  by (simp add: step_5b_def step_5b_step.R_fold)

subsection \<open>Propagation\<close>

lemma known_pair_key: "(F, i) \<in> ptr_params s \<Longrightarrow> F \<in> fst ` set (FunctionsTaintingPointerParams s)"
  by (auto simp: ptr_params_def dm_get_def dest!: map_of_SomeD[OF sym] split: option.splits
      intro: rev_image_eqI)

lemma add_known_pair: "(F, i) \<in> ptr_params s \<Longrightarrow>
    length (FunctionsTaintingPointerParams (add_ptr_param F i s)) =
      length (FunctionsTaintingPointerParams s)"
  by (simp add: add_ptr_param_def length_dm_set known_pair_key)

lemma discovers_store: "discovers m s (case processStoreForTaint cfg m U V s of
    (s', True) \<Rightarrow> set_discovered True s' | (s', False) \<Rightarrow> s')"
proof -
  let ?r = "processStoreForTaint cfg m U V s"
  have g: "grows m s (fst ?r)" by (intro grow_intros grows_refl)
  show ?thesis
  proof (cases "snd ?r")
    case True
    then have "ptr_params (fst ?r) \<noteq> ptr_params s" by (simp add: processStore_new)
    then obtain ptr where st: "as_store m U = Some (V, ptr)" "func_of_inst m U \<noteq> nullptr"
        "getPointerParameterOrigin m ptr \<noteq> nullptr"
      unfolding processStore_ptr_params by (simp split: option.splits prod.splits if_splits)
    let ?p = "(func_of_inst m U, arg_no m (getPointerParameterOrigin m ptr))"
    have "?p \<in> pairs_of m" by (rule pair_in_pairs[OF st(2,3)])
    moreover have "ptr_params (fst ?r) = insert ?p (ptr_params s)"
      using st by (simp add: processStore_ptr_params)
    moreover have "?p \<notin> ptr_params s"
      using True calculation(2) by (auto simp: processStore_new)
    ultimately have "undiscovered m (set_discovered True (fst ?r)) < undiscovered m s"
      by (intro undiscovered_pair[of "fst ?p" "snd ?p"]) simp_all
    with g True show ?thesis
      by (auto simp: split_beta intro!: discovers_new grow_intros)
  next
    case False
    then have "FunctionsTaintingPointerParams (fst ?r) = FunctionsTaintingPointerParams s
        \<or> length (FunctionsTaintingPointerParams (fst ?r)) = length (FunctionsTaintingPointerParams s)"
      by (auto simp: processStoreForTaint_def Let_def add_known_pair split: option.splits if_splits)
    moreover have "discoveredNewFunctions (fst ?r) = discoveredNewFunctions s"
      by (auto simp: processStoreForTaint_def Let_def split: option.splits)
    ultimately show ?thesis
      using g False processStore_new[of cfg m U V s] by (auto simp: split_beta discovers_def news_def)
  qed
qed

lemma discovers_return:
  "discovers m s (if func_of_inst m U \<noteq> nullptr \<and> \<not> ds_count (FunctionsReturningTaint s) (func_of_inst m U)
     then set_discovered True (add_returning (func_of_inst m U) s) else s)"
  using undiscovered_function[OF func_in_functions[of m U], of s
      "set_discovered True (add_returning (func_of_inst m U) s)"]
  by (auto intro!: discovers_new grow_intros)

lemma discovers_upward_use: "discovers m (fst x) (fst (upward_use cfg m V U x))"
proof (cases x)
  case (Pair s f)
  show ?thesis
  proof (cases "is_inst m U \<and> U \<notin> set (TaintedValues s)")
    case False
    then show ?thesis by (auto simp: Pair intro: discovers_emit)
  next
    case True
    then have U: "U \<in> universe m"
      by (auto simp: is_inst_def intro: inst_universe)
    let ?s1 = "taint_push U (set_level U (level m s V) s)"
    let ?s3 = "\<lambda>s2. case processStoreForTaint cfg m U V s2 of
        (s', True) \<Rightarrow> set_discovered True s' | (s', False) \<Rightarrow> s'"
    have 1: "discovers m s ?s1"
      using True U by (intro discovers_frame) (auto intro!: grow_intros)
    have 3: "discovers m s (?s3 (emit t v tx ?s1))" for t v tx
      by (rule discovers_trans[OF discovers_trans[OF 1 discovers_emit(1)] discovers_store])
    show ?thesis
      using True 3 discovers_trans[OF discovers_trans[OF 3 discovers_emit(1)] discovers_return]
      by (simp add: Pair Let_def)
  qed
qed

interpretation upward_use_step: keeps_preorder
    "\<lambda>x y. discovers m (fst x) (fst y)" "upward_use cfg m V" for m cfg V
  by unfold_locales (simp_all only: discovers_upward_use discovers_refl, blast intro: discovers_trans)

lemma discovers_upward_value: "discovers m s (upward_value cfg m V s)"
proof -
  let ?t = "emit_if (Verbose cfg) PROCESS V (''[USE] Processing uses of: '' @ getValueName m V) s"
  obtain s1 f where r: "fold (upward_use cfg m V) (getSortedUsers m V) (?t, False) = (s1, f)" by fastforce
  have "discovers m ?t s1"
    using upward_use_step.R_fold[of m "(?t, False)" cfg V "getSortedUsers m V"] unfolding r fst_conv .
  then have s1: "discovers m s s1"
    by (rule discovers_trans[OF discovers_emit(2)])
  show ?thesis
    unfolding upward_value_def r prod.case by (rule discovers_trans[OF s1 discovers_emit(2)])
qed

subsection \<open>Emptying the worklist\<close>

function upward_drain :: "pass_params \<Rightarrow> llmodule \<Rightarrow> tstate \<Rightarrow> tstate" where
  "upward_drain cfg m s =
     (if Worklist s = [] then s
      else upward_drain cfg m (upward_value cfg m (hd (Worklist s)) (pop_worklist s)))"
  by pat_completeness auto
termination
proof (relation "measure (\<lambda>(cfg, m, s). potential m s)", goal_cases)
  case (2 cfg m s)
  have "potential m (upward_value cfg m (hd (Worklist s)) (pop_worklist s)) \<le> potential m (pop_worklist s)"
    by (rule growsD(8)[OF discovers_grows[OF discovers_upward_value]])
  with potential_pop[OF 2, of m] show ?case by simp
qed simp

declare upward_drain.simps [simp del]

lemma upward_drain_empty [simp]: "Worklist (upward_drain cfg m s) = []"
  by (induction cfg m s rule: upward_drain.induct) (subst upward_drain.simps, simp)

lemma discovers_pop: "discovers m s (pop_worklist s)"
  by (rule discovers_frame) (simp_all add: grows_pop)

lemma upward_drain_keeps:
  assumes "I s" and "\<And>s. I s \<Longrightarrow> Worklist s \<noteq> [] \<Longrightarrow>
      I (upward_value cfg m (hd (Worklist s)) (pop_worklist s))"
  shows "I (upward_drain cfg m s)"
  using assms
proof (induction cfg m s rule: upward_drain.induct)
  case (1 cfg m s)
  then show ?case
    by (cases "Worklist s = []") (simp_all add: upward_drain.simps[of cfg m s])
qed

lemma discovers_upward_drain: "discovers m s (upward_drain cfg m s)"
  by (rule upward_drain_keeps[where I = "discovers m s"])
    (auto intro: discovers_trans[OF _ discovers_trans[OF discovers_pop discovers_upward_value]])

subsection \<open>The drain and the load scan, to a fixed point\<close>

definition mark_size :: "llmodule \<Rightarrow> addr dset \<Rightarrow> tstate \<Rightarrow> nat" where
  "mark_size m usc s = card ((universe m \<union> set (TaintedPointers s)) - set usc)"

lemma set_mark_scanned [simp]: "set (mark_scanned pts sc) = set pts \<union> set sc"
  by (induction pts arbitrary: sc) (auto simp: mark_scanned_def)

lemma set_pointers_to_scan [simp]:
  "set (pointers_to_scan sc s) = set (TaintedPointers s) - set sc"
  by (auto simp: pointers_to_scan_def)

lemma discovers_scan:
  "discovers m s (fst (scanLoadsFromTaintedPointers cfg m pts ks s))"
  by (rule discovers_frame) (auto intro!: grow_intros)

function upward_scan :: "pass_params \<Rightarrow> llmodule \<Rightarrow> addr dset \<Rightarrow> tstate \<Rightarrow> addr dset \<times> tstate" where
  "upward_scan cfg m UpwardScannedPointers s =
     (let s1 = upward_drain cfg m s;
          PointersToScan = pointers_to_scan UpwardScannedPointers s1
      in if PointersToScan = [] then (UpwardScannedPointers, s1)
         else upward_scan cfg m (mark_scanned PointersToScan UpwardScannedPointers)
                (fst (scanLoadsFromTaintedPointers cfg m PointersToScan None s1)))"
  by pat_completeness auto
termination
proof (relation "measure (\<lambda>(cfg, m, usc, s). mark_size m usc s)", goal_cases)
  case (2 cfg m usc s s1 pts)
  have g: "grows m s s1" unfolding 2(1) by (rule discovers_grows[OF discovers_upward_drain])
  obtain p where p: "p \<in> set (TaintedPointers s1)" "p \<notin> set usc"
    using 2(2,3) set_pointers_to_scan[of usc s1] by (metis DiffD1 DiffD2 list.set_intros(1) neq_Nil_conv)
  have "mark_size m (mark_scanned pts usc)
      (fst (scanLoadsFromTaintedPointers cfg m pts None s1)) < mark_size m usc s"
    unfolding mark_size_def 2(2) using p growsD(4)[OF g]
    by (intro psubset_card_mono) auto
  then show ?case by simp
qed simp

declare upward_scan.simps [simp del]

lemma discovers_upward_scan: "discovers m s (snd (upward_scan cfg m usc s))"
proof (induction cfg m usc s rule: upward_scan.induct)
  case (1 cfg m usc s)
  let ?s1 = "upward_drain cfg m s" and ?pts = "pointers_to_scan usc (upward_drain cfg m s)"
  show ?case
  proof (cases "?pts = []")
    case True
    then show ?thesis by (subst upward_scan.simps) (simp add: discovers_upward_drain)
  next
    case False
    have "upward_scan cfg m usc s = upward_scan cfg m (mark_scanned ?pts usc)
        (fst (scanLoadsFromTaintedPointers cfg m ?pts None ?s1))"
      using False by (subst upward_scan.simps) (simp add: Let_def)
    with "1.IH"[OF refl refl False]
    show ?thesis
      by (simp only:) (rule discovers_trans[OF discovers_trans[OF discovers_upward_drain discovers_scan]])
  qed
qed

text \<open>
  At its end the worklist is empty and every tainted pointer has been scanned.
\<close>

lemma upward_scan_end:
  assumes "upward_scan cfg m usc s = (usc', t)"
  shows "Worklist t = []" "set (TaintedPointers t) \<subseteq> set usc'"
proof -
  have "Worklist (snd (upward_scan cfg m usc s)) = []
      \<and> set (TaintedPointers (snd (upward_scan cfg m usc s))) \<subseteq> set (fst (upward_scan cfg m usc s))"
  proof (induction cfg m usc s rule: upward_scan.induct)
    case (1 cfg m usc s)
    let ?s1 = "upward_drain cfg m s" and ?pts = "pointers_to_scan usc (upward_drain cfg m s)"
    show ?case
    proof (cases "?pts = []")
      case True
      then have "set (TaintedPointers ?s1) \<subseteq> set usc"
        using set_pointers_to_scan[of usc ?s1] by simp
      moreover have "upward_scan cfg m usc s = (usc, ?s1)"
        using True by (subst upward_scan.simps) simp
      ultimately show ?thesis by simp
    next
      case False
      have "upward_scan cfg m usc s = upward_scan cfg m (mark_scanned ?pts usc)
          (fst (scanLoadsFromTaintedPointers cfg m ?pts None ?s1))"
        using False by (subst upward_scan.simps) (simp add: Let_def)
      with "1.IH"[OF refl refl False] show ?thesis
        by (simp only:)
    qed
  qed
  then show "Worklist t = []" "set (TaintedPointers t) \<subseteq> set usc'"
    using assms by simp_all
qed

subsection \<open>The recursion over callers\<close>

definition upward_round :: "pass_params \<Rightarrow> llmodule \<Rightarrow> nat \<Rightarrow> addr dset \<Rightarrow> tstate \<Rightarrow> addr dset \<times> tstate" where
  "upward_round cfg m recursionLevel UpwardScannedPointers s =
     (let s0 = set_discovered False s;
          s1 = emit_if (Verbose cfg) VERBOSE nullptr
                 (''--- Upward Tracking Iteration '' @ show_nat recursionLevel @ '' ---'')
                 (emit_if (Verbose cfg) VERBOSE nullptr '''' s0);
          s2 = step_5b cfg m (step_5a cfg m s1)
      in case upward_scan cfg m UpwardScannedPointers s2 of
           (UpwardScannedPointers', s3) \<Rightarrow>
             (UpwardScannedPointers',
              if length (FunctionsReturningTaint s) < length (FunctionsReturningTaint s3)
                 \<or> length (FunctionsTaintingPointerParams s) < length (FunctionsTaintingPointerParams s3)
              then set_discovered True s3 else s3))"

lemma upward_round_undiscovered:
  assumes "upward_round cfg m n usc s = (usc', t)"
  shows "grows m s t" "discoveredNewFunctions t \<Longrightarrow> undiscovered m t < undiscovered m s"
    "Worklist t = []" "set (TaintedPointers t) \<subseteq> set usc'"
proof -
  let ?s0 = "set_discovered False s"
  let ?s1 = "emit_if (Verbose cfg) VERBOSE nullptr
      (''--- Upward Tracking Iteration '' @ show_nat n @ '' ---'')
      (emit_if (Verbose cfg) VERBOSE nullptr '''' ?s0)"
  let ?s2 = "step_5b cfg m (step_5a cfg m ?s1)"
  obtain s3 where r: "upward_scan cfg m usc ?s2 = (usc', s3)"
      "t = (if news s s3 then set_discovered True s3 else s3)"
    using assms unfolding upward_round_def Let_def news_def by (auto split: prod.splits)
  have "discovers m ?s0 ?s1" by (rule discovers_trans[OF discovers_emit(2) discovers_emit(2)])
  then have "discovers m ?s0 ?s2"
    by (rule discovers_trans[OF discovers_trans[OF _ discovers_5a] discovers_5b])
  moreover have "discovers m ?s2 s3" using discovers_upward_scan[of m ?s2 cfg usc] unfolding r(1) snd_conv .
  ultimately have d: "discovers m ?s0 s3" by (rule discovers_trans)
  have u: "undiscovered m ?s0 = undiscovered m s" by (simp add: undiscovered_def)
  have n: "news ?s0 s3 = news s s3" by (simp add: news_def)
  have "grows m s s3" by (rule grows_trans[OF _ discovers_grows[OF d]]) (intro grow_intros grows_refl)
  then show "grows m s t" by (auto simp: r(2) intro: grow_intros)
  show "undiscovered m t < undiscovered m s" if "discoveredNewFunctions t"
    using d that unfolding discovers_def u n by (auto simp: r(2) undiscovered_def split: if_splits)
  show "Worklist t = []" "set (TaintedPointers t) \<subseteq> set usc'"
    using upward_scan_end[OF r(1)] by (simp_all add: r(2))
qed

function upward_loop :: "pass_params \<Rightarrow> llmodule \<Rightarrow> nat \<Rightarrow> addr dset \<Rightarrow> tstate \<Rightarrow> tstate" where
  "upward_loop cfg m recursionLevel UpwardScannedPointers s =
     (case upward_round cfg m recursionLevel UpwardScannedPointers s of
        (UpwardScannedPointers', s') \<Rightarrow>
          if discoveredNewFunctions s'
          then upward_loop cfg m (recursionLevel + 1) UpwardScannedPointers' s' else s')"
  by pat_completeness auto
termination
proof (relation "measure (\<lambda>(cfg, m, n, usc, s). undiscovered m s)", goal_cases)
  case (2 cfg m n usc s usc' s')
  then have "upward_round cfg m n usc s = (usc', s')" by simp
  from upward_round_undiscovered(2)[OF this 2(2)] show ?case by simp
qed simp

declare upward_loop.simps [simp del]

definition upward :: "pass_params \<Rightarrow> llmodule \<Rightarrow> tstate \<Rightarrow> tstate" where
  "upward cfg m s =
     (if UpwardInterprocMode cfg
         \<and> (FunctionsReturningTaint s \<noteq> [] \<or> FunctionsTaintingPointerParams s \<noteq> [])
      then emit_if (Verbose cfg) VERBOSE nullptr ''''
             (upward_loop cfg m 1 []
               (emit_if (Verbose cfg) VERBOSE nullptr ''=== Upward Interprocedural Tracking (Recursive) ==='' s))
      else s)"

text \<open>What every round keeps, and what holds when it ends, holds of the loop.\<close>

lemma upward_loop_rule:
  assumes "P usc s"
    and "\<And>n usc s usc' t. P usc s \<Longrightarrow> upward_round cfg m n usc s = (usc', t) \<Longrightarrow> P usc' t"
  shows "\<exists>n usc0 s0 usc'. P usc0 s0
     \<and> upward_round cfg m n usc0 s0 = (usc', upward_loop cfg m k usc s)
     \<and> \<not> discoveredNewFunctions (upward_loop cfg m k usc s)"
  using assms
proof (induction cfg m k usc s rule: upward_loop.induct)
  case (1 cfg m k usc s)
  obtain usc' s' where r: "upward_round cfg m k usc s = (usc', s')" by fastforce
  show ?case
  proof (cases "discoveredNewFunctions s'")
    case True
    then have "upward_loop cfg m k usc s = upward_loop cfg m (k + 1) usc' s'"
      by (subst upward_loop.simps) (simp add: r)
    with "1.IH"[OF r[symmetric] True "1.prems"(2)[OF "1.prems"(1) r] "1.prems"(2)]
    show ?thesis by simp
  next
    case False
    then have "upward_loop cfg m k usc s = s'"
      by (subst upward_loop.simps) (simp add: r)
    with False r "1.prems"(1) show ?thesis by auto
  qed
qed

lemma grows_upward_loop: "grows m s (upward_loop cfg m n usc s)"
proof -
  have step: "grows m s t" if "grows m s x" "upward_round cfg m k usc x = (usc', t)" for k usc x usc' t
    using grows_trans[OF that(1) upward_round_undiscovered(1)[OF that(2)]] .
  obtain k usc0 s0 usc' where
      "grows m s s0" "upward_round cfg m k usc0 s0 = (usc', upward_loop cfg m n usc s)"
    using upward_loop_rule[where P = "\<lambda>_. grows m s" and usc = usc and s = s and cfg = cfg and m = m
        and k = n, OF grows_refl] step by blast
  then show ?thesis by (rule step)
qed

lemma grows_upward [grow_intros]: "grows m s x \<Longrightarrow> grows m s (upward cfg m x)"
  by (auto simp: upward_def intro!: grow_intros intro: grows_trans[OF _ grows_upward_loop])

subsection \<open>Properties\<close>

text \<open>
  C39: The recursion over callers ends. A round that asks for another one has found a function
  that returns taint or a (function, parameter) pair not known before, of which the module has
  finitely many, and every round ends with an empty worklist and no tainted pointer unscanned.
\<close>

theorem upward_round_progress:
  assumes "upward_round cfg m n usc s = (usc', t)"
  shows "(discoveredNewFunctions t \<longrightarrow> undiscovered m t < undiscovered m s)
     \<and> Worklist t = [] \<and> set (TaintedPointers t) \<subseteq> set usc'"
  using upward_round_undiscovered(2-4)[OF assms] by blast

lemma upward_round_progress_witness:
  "undiscovered ex_params (snd (upward_round ex_cfg ex_params 1 [] (add_ptr_param 1 0 init_state)))
     < undiscovered ex_params (add_ptr_param 1 0 init_state)"
proof -
  let ?r = "upward_round ex_cfg ex_params 1 [] (add_ptr_param 1 0 init_state)"
  have "discoveredNewFunctions (snd ?r)" by code_simp
  with upward_round_progress[of ex_cfg ex_params 1 "[]" "add_ptr_param 1 0 init_state" "fst ?r" "snd ?r"]
  show ?thesis by simp
qed

end
