(* ===== verification/Closure.thy ===== *)
theory Closure
  imports Upward_Loop
begin

text \<open>
  What the fixed point of phase 2 means. Every value that is tainted is on the worklist until
  its users have been dealt with, so when the worklist is empty the tainted values are closed
  under the rules of the forward propagation (\<open>closed_value\<close>), and when the loop ends every
  tainted pointer has been scanned for loads (\<open>scanned\<close>).
\<close>

subsection \<open>Nothing is tainted without being queued\<close>

definition pushes :: "tstate \<Rightarrow> tstate \<Rightarrow> bool" where
  "pushes s t = (set (Worklist s) \<subseteq> set (Worklist t)
     \<and> set (TaintedValues t) \<subseteq> set (TaintedValues s) \<union> set (Worklist t)
     \<and> FunctionPointerTargets t = FunctionPointerTargets s)"

lemma pushes_refl [simp, intro]: "pushes s s"
  by (simp add: pushes_def)

lemma pushes_trans: "pushes s t \<Longrightarrow> pushes t u \<Longrightarrow> pushes s u"
  unfolding pushes_def by auto

lemma pushes_same: "Worklist t = Worklist s \<Longrightarrow> TaintedValues t = TaintedValues s \<Longrightarrow>
    FunctionPointerTargets t = FunctionPointerTargets s \<Longrightarrow> pushes s t"
  by (simp add: pushes_def)

lemma pushes_prims [push_intros]:
  "pushes s x \<Longrightarrow> pushes s (emit t v tx x)"
  "pushes s x \<Longrightarrow> pushes s (emit_if c t v tx x)"
  "pushes s x \<Longrightarrow> pushes s (set_level v l x)"
  "pushes s x \<Longrightarrow> pushes s (set_flevel f l x)"
  "pushes s x \<Longrightarrow> pushes s (taint_pointer p I x)"
  "pushes s x \<Longrightarrow> pushes s (add_returning f x)"
  "pushes s x \<Longrightarrow> pushes s (add_ptr_param f i x)"
  "pushes s x \<Longrightarrow> pushes s (add_killed I x)"
  "pushes s x \<Longrightarrow> pushes s (add_fields f i ixs x)"
  "pushes s x \<Longrightarrow> pushes s (set_changed b x)"
  "pushes s x \<Longrightarrow> pushes s (set_discovered b x)"
  "pushes s x \<Longrightarrow> pushes s (ensureLevelSet m I x)"
  "pushes s x \<Longrightarrow> pushes s (raise_function f l x)"
  by (erule pushes_trans, rule pushes_same; simp add: raise_function_def)+

lemma pushes_taint_push [push_intros]: "pushes s x \<Longrightarrow> pushes s (taint_push v x)"
  by (erule pushes_trans) (auto simp: pushes_def)

lemma pushes_track [push_intros]:
  "pushes s x \<Longrightarrow> pushes s (track_gep m p x)"
  "pushes s x \<Longrightarrow> pushes s (record_fields F i ixs x)"
  by (auto simp: track_gep_def record_fields_def intro!: push_intros split: option.split prod.split)

lemma pushes_store [push_intros]:
  "pushes s x \<Longrightarrow> pushes s (fst (processStoreForTaint cfg m S V x))"
  by (auto simp: processStoreForTaint_def Let_def intro!: push_intros split: option.split)

lemma pushes_taint_param [push_intros]:
  "pushes s x \<Longrightarrow> pushes s (taint_param cfg m mg F i l C x)"
  by (auto simp: taint_param_def Let_def intro!: push_intros)

subsubsection \<open>Forward operations\<close>

lemma pushes_indirect_target: "pushes s (indirect_target cfg m V C i T s)"
  by (auto simp: indirect_target_def Let_def intro!: push_intros)

interpretation target_pushes: keeps_preorder pushes "indirect_target cfg m V C i" for cfg m V C i
  by unfold_locales (auto intro: pushes_indirect_target pushes_trans)

lemma pushes_call_sink: "pushes s (call_sink cfg m V C s)"
  by (auto simp: call_sink_def call_direct_def call_indirect_def Let_def
      intro!: push_intros pushes_trans[OF _ target_pushes.R_fold] split: option.split)

lemma pushes_use_store: "pushes s x \<Longrightarrow> pushes s (fst (use_store cfg m S p x))"
  by (auto simp: use_store_def Let_def intro!: push_intros split: option.split)

lemma pushes_forward_use: "pushes s (forward_use cfg m V U s)"
proof -
  let ?s1 = "call_sink cfg m V U (emit_if (Verbose cfg) VERBOSE U
      (''  [USER] Processing use: '' @ getValueName m U) s)"
  have 1: "pushes s ?s1"
    by (rule pushes_trans[OF _ pushes_call_sink]) (intro push_intros pushes_refl)
  have pr: "pushes s x \<Longrightarrow> pushes s (propagate cfg m V U x)" for x
    by (auto simp: propagate_def Let_def intro!: push_intros)
  show ?thesis
    using 1 pr pushes_use_store[OF 1]
    by (auto simp: forward_use_def Let_def use_return_def split_beta intro!: push_intros
        split: option.split)
qed

interpretation use_pushes: keeps_preorder pushes "forward_use cfg m V" for cfg m V
  by unfold_locales (auto intro: pushes_forward_use pushes_trans)

lemma pushes_process_value: "pushes s (process_value cfg m V s)"
  unfolding process_value_def
  by (rule pushes_trans[OF _ use_pushes.R_fold]) (auto intro!: push_intros)

lemma pushes_scan_load: "pushes (fst x) (fst (scan_load cfg m ks p I x))"
  by (cases x) (auto simp: scan_load.simps Let_def intro!: push_intros split: option.split)

interpretation scan_pushes: keeps_preorder
    "\<lambda>x y. pushes (fst x) (fst y)" "scan_load cfg m ks p" for cfg m ks p
  by unfold_locales (simp_all only: pushes_scan_load pushes_refl, rule pushes_trans)

interpretation scan_ptr_pushes: keeps_preorder
    "\<lambda>x y. pushes (fst x) (fst y)" "scan_pointer cfg m ks" for cfg m ks
  by unfold_locales (simp_all add: scan_pointer_def scan_pushes.R_fold, rule pushes_trans)

lemma pushes_scan: "pushes s (fst (scanLoadsFromTaintedPointers cfg m pts ks s))"
  using scan_ptr_pushes.R_fold[of "(s, False)" cfg m ks pts]
  by (simp add: scanLoadsFromTaintedPointers_def)

subsection \<open>Closure under the rules of the forward phase\<close>

text \<open>
  A store that goes on in the function it stands in: neither to a global variable nor through
  a pointer parameter. A use that taints the user in the main phase: not a return of the
  value, and no other store of it.
\<close>

definition local_store :: "llmodule \<Rightarrow> addr \<Rightarrow> bool" where
  "local_store m p = (as_global m (strip m p) = None \<and> getPointerParameterOrigin m p = nullptr)"

definition marks :: "llmodule \<Rightarrow> addr \<Rightarrow> addr \<Rightarrow> bool" where
  "marks m V U = (U \<in> set (users_of m V) \<and> is_inst m U \<and> as_ret m U \<noteq> Some V
     \<and> (\<forall>p. as_store m U = Some (V, p) \<longrightarrow> local_store m p))"

definition callees :: "pass_params \<Rightarrow> llmodule \<Rightarrow> tstate \<Rightarrow> addr \<Rightarrow> addr \<Rightarrow> addr list" where
  "callees cfg m s Callee cv =
     (if Callee \<noteq> nullptr then [Callee]
      else if IndirectCallMode cfg then resolve_targets m (FunctionPointerTargets s) cv else [])"

text \<open>The parameters a tainted argument is passed to are tainted, when calls are followed.\<close>

definition call_closed :: "pass_params \<Rightarrow> llmodule \<Rightarrow> tstate \<Rightarrow> addr \<Rightarrow> addr \<Rightarrow> bool" where
  "call_closed cfg m s V U =
     (\<forall>Callee cv args i T. InterprocMode cfg \<longrightarrow> as_call m U = Some (Callee, cv, args) \<longrightarrow>
        first_arg V args = Some i \<longrightarrow> T \<in> set (callees cfg m s Callee cv) \<longrightarrow>
        \<not> is_declaration m T \<longrightarrow> i < length (args_of m T) \<longrightarrow>
        args_of m T ! i \<in> set (TaintedValues s))"

text \<open>
  A store of a tainted value stops at a global variable, is recorded when it goes through a
  parameter, and taints a local pointer and itself otherwise.
\<close>

definition store_closed :: "llmodule \<Rightarrow> tstate \<Rightarrow> addr \<Rightarrow> addr \<Rightarrow> bool" where
  "store_closed m s U p =
     (as_global m (strip m p) = None \<longrightarrow>
        (if getPointerParameterOrigin m p \<noteq> nullptr
         then func_of_inst m U \<noteq> nullptr \<longrightarrow>
                (func_of_inst m U, arg_no m (getPointerParameterOrigin m p)) \<in> ptr_params s
         else strip m p \<in> set (TaintedPointers s) \<and> U \<in> set (TaintedValues s)))"

definition closed_use :: "pass_params \<Rightarrow> llmodule \<Rightarrow> tstate \<Rightarrow> addr \<Rightarrow> addr \<Rightarrow> bool" where
  "closed_use cfg m s V U =
     (is_inst m U \<longrightarrow> call_closed cfg m s V U
        \<and> (if as_ret m U = Some V
           then func_of_inst m U \<noteq> nullptr \<longrightarrow> func_of_inst m U \<in> set (FunctionsReturningTaint s)
           else case as_store m U of
             Some (v, p) \<Rightarrow> if v = V then store_closed m s U p else U \<in> set (TaintedValues s)
           | None \<Rightarrow> U \<in> set (TaintedValues s)))"

definition closed_value :: "pass_params \<Rightarrow> llmodule \<Rightarrow> tstate \<Rightarrow> addr \<Rightarrow> bool" where
  "closed_value cfg m s V = (\<forall>U \<in> set (users_of m V). closed_use cfg m s V U)"

lemma store_closed_mono: "grows m s t \<Longrightarrow> store_closed m s U p \<Longrightarrow> store_closed m t U p"
  unfolding store_closed_def using growsD(1,3,7)[of m s t] by (auto split: if_splits)

lemma call_closed_mono:
  assumes "grows m s t" "FunctionPointerTargets t = FunctionPointerTargets s" "call_closed cfg m s V U"
  shows "call_closed cfg m t V U"
proof -
  have "callees cfg m t = callees cfg m s" by (simp add: callees_def assms(2) fun_eq_iff)
  with assms(3) show ?thesis
    unfolding call_closed_def using growsD(1)[OF assms(1)] by (metis subset_iff)
qed

lemma closed_use_mono:
  assumes "grows m s t" "FunctionPointerTargets t = FunctionPointerTargets s" "closed_use cfg m s V U"
  shows "closed_use cfg m t V U"
  using assms(3) call_closed_mono[OF assms(1,2)] store_closed_mono[OF assms(1)] growsD(1,6)[OF assms(1)]
  by (auto simp: closed_use_def split: option.splits if_splits)

lemma closed_value_mono:
  "grows m s t \<Longrightarrow> FunctionPointerTargets t = FunctionPointerTargets s \<Longrightarrow>
     closed_value cfg m s V \<Longrightarrow> closed_value cfg m t V"
  unfolding closed_value_def using closed_use_mono by blast

subsubsection \<open>Each use is closed when it has been dealt with\<close>

lemma call_direct_closes:
  "InterprocMode cfg \<Longrightarrow> i < length (args_of m F) \<Longrightarrow>
     args_of m F ! i \<in> set (TaintedValues (call_direct cfg m V C F i s))"
  by (auto simp: call_direct_def Let_def)

lemma indirect_target_closes:
  "\<not> is_declaration m T \<Longrightarrow> i < length (args_of m T) \<Longrightarrow>
     args_of m T ! i \<in> set (TaintedValues (indirect_target cfg m V C i T s))"
  by (auto simp: indirect_target_def Let_def)

lemma indirect_targets_close:
  assumes "T \<in> set Ts" "\<not> is_declaration m T" "i < length (args_of m T)"
  shows "args_of m T ! i \<in> set (TaintedValues (fold (indirect_target cfg m V C i) Ts s))"
proof -
  let ?Q = "\<lambda>T s. \<not> is_declaration m T \<longrightarrow> i < length (args_of m T) \<longrightarrow>
      args_of m T ! i \<in> set (TaintedValues s)"
  have "?Q T (fold (indirect_target cfg m V C i) Ts s)"
  proof (rule fold_establishes[where Q = ?Q, OF _ _ assms(1)])
    show "?Q x (indirect_target cfg m V C i x s)" for x s
      by (simp add: indirect_target_closes)
    show "?Q x (indirect_target cfg m V C i y s)" if "?Q x s" for x y s
      using that growsD(1)[OF advances_grows[OF advances_indirect_target[of m s cfg V C i y]]] by auto
  qed
  with assms show ?thesis by simp
qed

lemma call_sink_closes: "call_closed cfg m (call_sink cfg m V C s) V C"
  unfolding call_closed_def
proof (intro allI impI)
  fix Callee cv args i T
  assume a: "InterprocMode cfg" "as_call m C = Some (Callee, cv, args)" "first_arg V args = Some i"
    "T \<in> set (callees cfg m (call_sink cfg m V C s) Callee cv)" "\<not> is_declaration m T"
    "i < length (args_of m T)"
  have fpt: "FunctionPointerTargets (call_sink cfg m V C s) = FunctionPointerTargets s"
    using pushes_call_sink[of s cfg m V C] by (simp add: pushes_def)
  show "args_of m T ! i \<in> set (TaintedValues (call_sink cfg m V C s))"
  proof (cases "Callee = nullptr")
    case False
    then have "T = Callee" using a(4) by (simp add: callees_def)
    with a False show ?thesis
      by (simp add: call_sink_def call_direct_closes)
  next
    case True
    with a(4) fpt have "IndirectCallMode cfg" "T \<in> set (resolve_targets m (FunctionPointerTargets s) cv)"
      by (auto simp: callees_def split: if_splits)
    moreover from this have "resolve_targets m (FunctionPointerTargets s) cv \<noteq> []" by auto
    ultimately show ?thesis
      using a True by (simp add: call_sink_def call_indirect_def Let_def indirect_targets_close)
  qed
qed

lemma propagate_closes: "U \<in> set (TaintedValues (propagate cfg m V U s))"
  by (simp add: propagate_def Let_def)

lemma use_return_closes: "func_of_inst m R \<noteq> nullptr \<Longrightarrow>
    func_of_inst m R \<in> set (FunctionsReturningTaint (use_return cfg m R s))"
  by (simp add: use_return_def Let_def)

lemma use_store_closes:
  assumes "use_store cfg m S p s = (t, goes_on)" "goes_on \<Longrightarrow> S \<in> set (TaintedValues u)"
    and "grows m t u"
  shows "store_closed m u S p"
proof -
  have "as_global m (strip m p) = None \<longrightarrow>
      (if getPointerParameterOrigin m p \<noteq> nullptr
       then func_of_inst m S \<noteq> nullptr \<longrightarrow>
              (func_of_inst m S, arg_no m (getPointerParameterOrigin m p)) \<in> ptr_params t
       else strip m p \<in> set (TaintedPointers t) \<and> goes_on)"
    using assms(1) by (auto simp: use_store_def Let_def split: option.splits if_splits)
  then show ?thesis
    unfolding store_closed_def using assms(2) growsD(3,7)[OF assms(3)] by (auto split: if_splits)
qed

lemma forward_use_closes: "closed_use cfg m (forward_use cfg m V U s) V U"
proof (cases "is_inst m U")
  case True
  let ?s0 = "emit_if (Verbose cfg) VERBOSE U (''  [USER] Processing use: '' @ getValueName m U) s"
  let ?s1 = "call_sink cfg m V U ?s0"
  let ?t = "forward_use cfg m V U s"
  have t: "?t = (if as_ret m U = Some V then use_return cfg m U ?s1
      else case as_store m U of
        Some (val, ptr) \<Rightarrow> if val = V then
            (case use_store cfg m U ptr ?s1 of (s2, goes_on) \<Rightarrow> if goes_on then propagate cfg m V U s2 else s2)
          else propagate cfg m V U ?s1
      | None \<Rightarrow> propagate cfg m V U ?s1)"
    using True by (simp add: forward_use_def Let_def del: append.simps)
  have U: "U \<in> universe m" using True by (auto simp: is_inst_def intro: inst_universe)
  note pr = advances_grows[OF advances_propagate[OF U]]
  have st: "advances m ?s1 (fst (use_store cfg m U p ?s1))" if "as_store m U = Some (v, p)" for v p
    by (rule advances_use_store[OF that])
  have g: "grows m ?s1 ?t"
    unfolding t using pr advances_grows[OF advances_use_return] advances_grows[OF st]
    by (auto split: option.split prod.split intro: grows_trans)
  have f: "FunctionPointerTargets ?t = FunctionPointerTargets ?s1"
    using pushes_forward_use[of s cfg m V U] pushes_call_sink[of ?s0 cfg m V U]
    by (simp add: pushes_def)
  have c: "call_closed cfg m ?t V U"
    by (rule call_closed_mono[OF g f call_sink_closes])
  have st2: "store_closed m ?t U p" if "as_store m U = Some (V, p)" "as_ret m U \<noteq> Some V" for p
  proof -
    obtain s2 goes_on where us: "use_store cfg m U p ?s1 = (s2, goes_on)" by fastforce
    have "?t = (if goes_on then propagate cfg m V U s2 else s2)"
      unfolding t using that us by (simp del: append.simps)
    then show ?thesis
      using use_store_closes[OF us, of ?t] propagate_closes pr by (cases goes_on) simp_all
  qed
  show ?thesis
    unfolding closed_use_def
    using c st2 propagate_closes use_return_closes
    by (auto simp: t split: option.split)
qed (simp add: closed_use_def)

lemma process_value_closes: "closed_value cfg m (process_value cfg m V s) V"
  unfolding closed_value_def process_value_def
proof
  fix U assume "U \<in> set (users_of m V)"
  then have "U \<in> set (getSortedUsers m V)" by simp
  then show "closed_use cfg m (fold (forward_use cfg m V) (getSortedUsers m V)
      (if users_of m V \<noteq> [] then emit PROCESS V (''[USE] Processing uses of: '' @ getValueName m V) s
       else emit NO_USE V (''[NO USE] No uses of: '' @ getValueName m V) s)) V U"
  proof (rule fold_establishes[where Q = "\<lambda>U s. closed_use cfg m s V U", rotated 2])
    show "closed_use cfg m (forward_use cfg m V y s) V x" if "closed_use cfg m s V x" for x y s
      using closed_use_mono[OF advances_grows[OF advances_forward_use] _ that]
        pushes_forward_use[of s cfg m V y] by (simp add: pushes_def)
  qed (rule forward_use_closes)
qed

subsection \<open>The fixed point\<close>

definition pending :: "pass_params \<Rightarrow> llmodule \<Rightarrow> tstate \<Rightarrow> bool" where
  "pending cfg m s = (\<forall>V \<in> set (TaintedValues s) - set (Worklist s). closed_value cfg m s V)"

lemma pending_step:
  assumes "pending cfg m s" "grows m s t" "pushes s t"
  shows "pending cfg m t"
  unfolding pending_def
proof
  fix V assume V: "V \<in> set (TaintedValues t) - set (Worklist t)"
  with assms(3) have "V \<in> set (TaintedValues s) - set (Worklist s)"
    by (auto simp: pushes_def)
  with assms(1) have "closed_value cfg m s V" by (simp add: pending_def)
  then show "closed_value cfg m t V"
    using assms(2,3) closed_value_mono by (simp add: pushes_def)
qed

lemma pending_process:
  assumes "pending cfg m s" "Worklist s \<noteq> []"
  shows "pending cfg m (process_value cfg m (hd (Worklist s)) (pop_worklist s))"
  unfolding pending_def
proof
  let ?V = "hd (Worklist s)" and ?p = "pop_worklist s"
  let ?t = "process_value cfg m ?V ?p"
  fix W assume W: "W \<in> set (TaintedValues ?t) - set (Worklist ?t)"
  have g: "grows m ?p ?t" by (rule advances_grows[OF advances_process_value])
  have q: "pushes ?p ?t" by (rule pushes_process_value)
  show "closed_value cfg m ?t W"
  proof (cases "W = ?V")
    case True
    then show ?thesis by (simp add: process_value_closes)
  next
    case False
    from W q have "W \<in> set (TaintedValues s)" "W \<notin> set (tl (Worklist s))"
      by (auto simp: pushes_def)
    moreover from this False assms(2) have "W \<notin> set (Worklist s)"
      by (cases "Worklist s") auto
    ultimately have "closed_value cfg m s W"
      using assms(1) by (simp add: pending_def)
    moreover have "FunctionPointerTargets ?t = FunctionPointerTargets s"
      using q by (simp add: pushes_def)
    ultimately show ?thesis
      using closed_value_mono[OF grows_trans[OF grows_pop g]] by blast
  qed
qed

lemma pending_drain: "pending cfg m s \<Longrightarrow> pending cfg m (drain cfg m s)"
  by (rule drain_invariant[where I = "pending cfg m"]) (auto intro: pending_process)

lemma pushes_find_kills: "pushes s (find_kills cfg m s)"
  by (rule pushes_same) simp_all

text \<open>The loads of a pointer that has been scanned.\<close>

definition scanned :: "llmodule \<Rightarrow> tstate \<Rightarrow> addr \<Rightarrow> bool" where
  "scanned m s Ptr = (Ptr \<in> set (TaintedPointers s) \<and>
     (\<forall>I \<in> set (all_insts m). reads_pointer m I Ptr \<longrightarrow>
        I \<in> set (TaintedValues s) \<or> killed_before m (Some (KilledStores s)) Ptr I
        \<or> isLoadBeforeTaintOrigin m I Ptr (PointerTaintOrigin s)))"

lemma scanned_mono:
  assumes "grows m s t" "scanned m s Ptr"
  shows "scanned m t Ptr"
proof -
  have "map_of (PointerTaintOrigin t) Ptr = map_of (PointerTaintOrigin s) Ptr"
    using assms(2) grows_origin[OF assms(1)] by (simp add: scanned_def)
  then have "isLoadBeforeTaintOrigin m I Ptr (PointerTaintOrigin t) =
      isLoadBeforeTaintOrigin m I Ptr (PointerTaintOrigin s)" for I
    by (simp add: isLoadBeforeTaintOrigin_iff)
  moreover have "killed_before m (Some (KilledStores s)) Ptr I \<Longrightarrow>
      killed_before m (Some (KilledStores t)) Ptr I" for I
    using growsD(5)[OF assms(1)] by (auto simp: killed_before_def after_kill_iff)
  ultimately show ?thesis
    using assms(2) growsD(1,3)[OF assms(1)] unfolding scanned_def by (metis subset_iff)
qed

lemma scan_scans:
  assumes "Ptr \<in> set pts" "Ptr \<in> set (TaintedPointers s)"
  shows "scanned m (fst (scanLoadsFromTaintedPointers cfg m pts (Some (KilledStores s)) s)) Ptr"
  using assms unfolding scanned_def by (auto simp: scan_tainted live_load_def)

lemma forward_round_invariant:
  assumes r: "forward_round cfg m sc s = (sc', t)"
    and inv: "pending cfg m s" "\<forall>Ptr \<in> set sc. scanned m s Ptr"
  shows "pending cfg m t" "\<forall>Ptr \<in> set sc'. scanned m t Ptr" "set (TaintedPointers t) \<subseteq> set sc'"
    "\<not> changed t \<Longrightarrow> Worklist t = []"
proof -
  let ?s0 = "set_changed False s"
  let ?s2 = "find_kills cfg m (drain cfg m ?s0)"
  let ?pts = "pointers_to_scan sc ?s2"
  let ?sc = "scanLoadsFromTaintedPointers cfg m ?pts (Some (KilledStores ?s2)) ?s2"
  have t: "t = (if snd ?sc then set_changed True (fst ?sc) else fst ?sc)" "sc' = mark_scanned ?pts sc"
    using r by (auto simp: forward_round_def Let_def split: prod.splits)
  have 0: "pending cfg m ?s0"
    by (rule pending_step[OF inv(1)]) (intro grow_intros push_intros grows_refl pushes_refl)+
  have g2: "grows m ?s0 ?s2"
    by (rule advances_grows[OF advances_trans[OF advances_drain advances_find_kills]])
  have g3: "grows m ?s2 (fst ?sc)" by (rule grows_scan[OF grows_refl])
  have 2: "pending cfg m ?s2"
    by (rule pending_step[OF pending_drain[OF 0] advances_grows[OF advances_find_kills] pushes_find_kills])
  have 3: "pending cfg m (fst ?sc)"
    by (rule pending_step[OF 2 g3 pushes_scan])
  have gt: "grows m (fst ?sc) t" and pt: "pushes (fst ?sc) t"
    by (auto simp: t intro: grows_emit pushes_prims)
  show "pending cfg m t" by (rule pending_step[OF 3 gt pt])
  have g: "grows m s t" by (rule forward_round_untainted(1)[OF r])
  show "\<forall>Ptr \<in> set sc'. scanned m t Ptr"
  proof
    fix Ptr assume "Ptr \<in> set sc'"
    then have "Ptr \<in> set sc \<or> Ptr \<in> set ?pts" by (auto simp: t(2))
    then show "scanned m t Ptr"
    proof
      assume "Ptr \<in> set sc"
      with inv(2) show ?thesis using scanned_mono[OF g] by blast
    next
      assume p: "Ptr \<in> set ?pts"
      then have "Ptr \<in> set (TaintedPointers ?s2)" by simp
      from scan_scans[OF p this] show ?thesis by (rule scanned_mono[OF gt])
    qed
  qed
  show "set (TaintedPointers t) \<subseteq> set sc'" by (auto simp: t)
  show "Worklist t = []" if "\<not> changed t"
  proof -
    have "\<not> snd ?sc" using that by (auto simp: t split: if_splits)
    then have "set (TaintedValues (fst ?sc)) = set (TaintedValues ?s2)"
      by (simp add: scan_changed_iff)
    then have "set (Worklist (fst ?sc)) \<subseteq> set (Worklist ?s2)"
      using growsD(9)[OF g3] by simp
    then show ?thesis using \<open>\<not> snd ?sc\<close> by (simp add: t)
  qed
qed

lemma forward_loop_end:
  "pending cfg m s \<Longrightarrow> \<forall>Ptr \<in> set sc. scanned m s Ptr \<Longrightarrow>
     pending cfg m (forward_loop cfg m sc s) \<and> Worklist (forward_loop cfg m sc s) = []
     \<and> (\<forall>Ptr \<in> set (TaintedPointers (forward_loop cfg m sc s)). scanned m (forward_loop cfg m sc s) Ptr)"
proof (induction cfg m sc s rule: forward_loop.induct)
  case (1 cfg m sc s)
  obtain sc' s' where r: "forward_round cfg m sc s = (sc', s')" by fastforce
  note inv = forward_round_invariant[OF r "1.prems"]
  show ?case
    using "1.IH"[OF r[symmetric]] inv by (subst (1 2 3 4) forward_loop.simps) (auto simp: r)
qed

lemma forward_end:
  assumes "pending cfg m s"
  shows "Worklist (forward cfg m s) = []"
    and "V \<in> set (TaintedValues (forward cfg m s)) \<Longrightarrow> closed_value cfg m (forward cfg m s) V"
    and "Ptr \<in> set (TaintedPointers (forward cfg m s)) \<Longrightarrow> scanned m (forward cfg m s) Ptr"
  using forward_loop_end[OF assms, of "[]"] by (auto simp: forward_def pending_def)

end
