(* ===== verification/Upward_Closure.thy ===== *)
theory Upward_Closure
  imports Closure
begin

text \<open>
  What the fixed point of phase 5 means. When the recursion ends, every use of a tainted
  value by an instruction is accounted for (\<open>covered\<close>), every load of a tainted pointer is
  tainted whether or not a store kills the pointer in between (\<open>unkilled_scanned\<close>), every
  call of a function that returns taint is tainted (\<open>calls_tainted\<close>), and every call of a
  function that taints a pointer parameter has tainted or recorded its argument
  (\<open>args_tainted\<close>).
\<close>

subsection \<open>The upward operations queue what they taint\<close>

lemma pushes_returning_call: "pushes (fst x) (fst (returning_call cfg m TF I x))"
  by (cases x) (auto simp: Let_def intro!: push_intros split: option.split)

interpretation returning_pushes: keeps_preorder
    "\<lambda>x y. pushes (fst x) (fst y)" "returning_call cfg m TF" for cfg m TF
  by unfold_locales (simp_all only: pushes_returning_call pushes_refl, rule pushes_trans)

lemma pushes_callers_of_returning: "pushes s (callers_of_returning cfg m TF s)"
proof -
  let ?e = "emit_if (Verbose cfg) VERBOSE TF (''Finding callers of: '' @ fun_name m TF @ '' (returns taint)'') s"
  have "pushes s (fst (fold (returning_call cfg m TF) (all_insts m) (?e, False)))"
    by (rule pushes_trans[OF _ returning_pushes.R_fold[of "(?e, False)", unfolded fst_conv]])
      (intro push_intros pushes_refl)
  then show ?thesis
    unfolding callers_of_returning_def by (auto simp: split_beta simp del: append.simps intro!: pushes_prims)
qed

interpretation step_5a_pushes: keeps_preorder pushes "callers_of_returning cfg m" for cfg m
  by unfold_locales (auto intro: pushes_callers_of_returning pushes_trans)

lemma pushes_struct_store: "pushes s (struct_store m C G ix GU s)"
  by (auto simp: struct_store_def Let_def intro!: push_intros split: option.split)

interpretation struct_store_pushes: keeps_preorder pushes "struct_store m C G ix" for m C G ix
  by unfold_locales (auto intro: pushes_struct_store pushes_trans)

lemma pushes_struct_user: "pushes s (struct_user m C acc U s)"
  by (auto simp: struct_user_def Let_def intro: struct_store_pushes.R_fold split: option.split)

interpretation struct_user_pushes: keeps_preorder pushes "struct_user m C acc" for m C acc
  by unfold_locales (auto intro: pushes_struct_user pushes_trans)

lemma pushes_param_arg: "pushes s (param_arg cfg m TF C args i s)"
  by (auto simp: param_arg_def pass_through_def taint_pointed_def struct_fields_def Let_def
      intro!: push_intros pushes_trans[OF _ struct_user_pushes.R_fold])

interpretation param_arg_pushes: keeps_preorder pushes "param_arg cfg m TF C args" for cfg m TF C args
  by unfold_locales (auto intro: pushes_param_arg pushes_trans)

lemma pushes_param_call: "pushes (fst x) (fst (param_call cfg m TF ps I x))"
  by (cases x) (auto intro: param_arg_pushes.R_fold split: option.split)

interpretation param_call_pushes: keeps_preorder
    "\<lambda>x y. pushes (fst x) (fst y)" "param_call cfg m TF ps" for cfg m TF ps
  by unfold_locales (simp_all only: pushes_param_call pushes_refl, rule pushes_trans)

lemma pushes_callers_of_tainting: "pushes s (callers_of_tainting cfg m fp s)"
proof (cases fp)
  case (Pair TF ps)
  let ?e = "emit_if (Verbose cfg) VERBOSE TF
      (''Finding callers of: '' @ fun_name m TF @ '' (taints pointer params)'') s"
  have "pushes s (fst (fold (param_call cfg m TF ps) (all_insts m) (?e, False)))"
    by (rule pushes_trans[OF _ param_call_pushes.R_fold[of "(?e, False)", unfolded fst_conv]])
      (intro push_intros pushes_refl)
  then show ?thesis
    unfolding Pair callers_of_tainting.simps
    by (auto simp: split_beta simp del: append.simps intro!: pushes_prims)
qed

interpretation step_5b_pushes: keeps_preorder pushes "callers_of_tainting cfg m" for cfg m
  by unfold_locales (auto intro: pushes_callers_of_tainting pushes_trans)

lemma pushes_5ab: "pushes s (step_5b cfg m (step_5a cfg m s))"
  unfolding step_5a_def step_5b_def
  by (rule pushes_trans[OF step_5a_pushes.R_fold step_5b_pushes.R_fold])

lemma pushes_store_flag: "pushes s x \<Longrightarrow> pushes s (case processStoreForTaint cfg m U V x of
    (s', True) \<Rightarrow> set_discovered True s' | (s', False) \<Rightarrow> s')"
  using pushes_store[of s x cfg m U V] by (auto simp: split_beta intro: pushes_prims split: bool.split)

lemma pushes_upward_use: "pushes (fst x) (fst (upward_use cfg m V U x))"
  by (cases x) (auto simp: Let_def simp del: append.simps intro!: push_intros pushes_store_flag)

interpretation upward_use_pushes: keeps_preorder
    "\<lambda>x y. pushes (fst x) (fst y)" "upward_use cfg m V" for cfg m V
  by unfold_locales (simp_all only: pushes_upward_use pushes_refl, rule pushes_trans)

lemma pushes_upward_value: "pushes s (upward_value cfg m V s)"
proof -
  let ?e = "emit_if (Verbose cfg) PROCESS V (''[USE] Processing uses of: '' @ getValueName m V) s"
  have "pushes s (fst (fold (upward_use cfg m V) (getSortedUsers m V) (?e, False)))"
    by (rule pushes_trans[OF _ upward_use_pushes.R_fold[of "(?e, False)", unfolded fst_conv]])
      (intro push_intros pushes_refl)
  then show ?thesis
    unfolding upward_value_def by (auto simp: split_beta simp del: append.simps intro: pushes_prims)
qed

subsection \<open>Uses\<close>

text \<open>
  A use of a tainted value: the instruction is tainted, or the use is a return that was
  recorded, or a store to a global variable or one through a parameter that was recorded.
\<close>

definition covered :: "llmodule \<Rightarrow> tstate \<Rightarrow> addr \<Rightarrow> addr \<Rightarrow> bool" where
  "covered m s V U =
     (U \<in> set (TaintedValues s)
      \<or> (as_ret m U = Some V
          \<and> (func_of_inst m U \<noteq> nullptr \<longrightarrow> func_of_inst m U \<in> set (FunctionsReturningTaint s)))
      \<or> (\<exists>p. as_store m U = Some (V, p) \<and>
           (as_global m (strip m p) \<noteq> None
            \<or> (getPointerParameterOrigin m p \<noteq> nullptr \<and> (func_of_inst m U \<noteq> nullptr \<longrightarrow>
                (func_of_inst m U, arg_no m (getPointerParameterOrigin m p)) \<in> ptr_params s)))))"

definition covered_value :: "llmodule \<Rightarrow> tstate \<Rightarrow> addr \<Rightarrow> bool" where
  "covered_value m s V = (\<forall>U \<in> set (users_of m V). is_inst m U \<longrightarrow> covered m s V U)"

lemma covered_mono: "grows m s t \<Longrightarrow> covered m s V U \<Longrightarrow> covered m t V U"
  unfolding covered_def using growsD(1,6,7)[of m s t] by blast

lemma covered_value_mono: "grows m s t \<Longrightarrow> covered_value m s V \<Longrightarrow> covered_value m t V"
  unfolding covered_value_def using covered_mono by blast

lemma closed_use_covered: "closed_use cfg m s V U \<Longrightarrow> is_inst m U \<Longrightarrow> covered m s V U"
  by (auto simp: closed_use_def covered_def store_closed_def split: if_splits option.splits)

lemma closed_value_covered: "closed_value cfg m s V \<Longrightarrow> covered_value m s V"
  unfolding closed_value_def covered_value_def using closed_use_covered by blast

lemma upward_use_taints:
  assumes "is_inst m U"
  shows "U \<in> set (TaintedValues (fst (upward_use cfg m V U x)))"
proof (cases x)
  case (Pair s f)
  have t: "TaintedValues (case processStoreForTaint cfg m U V s2 of
      (s', True) \<Rightarrow> set_discovered True s' | (s', False) \<Rightarrow> s') = TaintedValues s2" for s2
    using processStore_fields(2)[of cfg m U V s2] by (auto simp: split_beta split: bool.split)
  show ?thesis
    using assms by (auto simp: Pair Let_def t simp del: append.simps)
qed

lemma upward_value_covers: "covered_value m (upward_value cfg m V s) V"
  unfolding covered_value_def
proof (intro ballI impI)
  fix U assume "U \<in> set (users_of m V)" and i: "is_inst m U"
  then have U: "U \<in> set (getSortedUsers m V)" by simp
  have "is_inst m U \<longrightarrow> U \<in> set (TaintedValues (fst (fold (upward_use cfg m V) (getSortedUsers m V) x)))" for x
  proof (rule fold_establishes[where Q = "\<lambda>U x. is_inst m U \<longrightarrow> U \<in> set (TaintedValues (fst x))", OF _ _ U])
    show "is_inst m U \<longrightarrow> U \<in> set (TaintedValues (fst (upward_use cfg m V W x)))"
      if "is_inst m U \<longrightarrow> U \<in> set (TaintedValues (fst x))" for U W x
      using that growsD(1)[OF discovers_grows[OF discovers_upward_use[of m x cfg V W]]] by blast
  qed (simp add: upward_use_taints)
  with i have "U \<in> set (TaintedValues (upward_value cfg m V s))"
    by (simp add: upward_value_def split_beta del: append.simps)
  then show "covered m (upward_value cfg m V s) V U" by (simp add: covered_def)
qed

definition awaiting :: "llmodule \<Rightarrow> tstate \<Rightarrow> bool" where
  "awaiting m s = (\<forall>V \<in> set (TaintedValues s) - set (Worklist s). covered_value m s V)"

lemma awaiting_step:
  assumes "awaiting m s" "grows m s t" "pushes s t"
  shows "awaiting m t"
  unfolding awaiting_def
proof
  fix V assume V: "V \<in> set (TaintedValues t) - set (Worklist t)"
  with assms(3) have "V \<in> set (TaintedValues s) - set (Worklist s)"
    by (auto simp: pushes_def)
  with assms(1) show "covered_value m t V"
    using covered_value_mono[OF assms(2)] by (simp add: awaiting_def)
qed

lemma awaiting_value:
  assumes "awaiting m s" "Worklist s \<noteq> []"
  shows "awaiting m (upward_value cfg m (hd (Worklist s)) (pop_worklist s))"
  unfolding awaiting_def
proof
  let ?V = "hd (Worklist s)" and ?p = "pop_worklist s"
  let ?t = "upward_value cfg m ?V ?p"
  fix W assume W: "W \<in> set (TaintedValues ?t) - set (Worklist ?t)"
  show "covered_value m ?t W"
  proof (cases "W = ?V")
    case True
    then show ?thesis by (simp add: upward_value_covers)
  next
    case False
    from W pushes_upward_value[of ?p cfg m ?V]
    have "W \<in> set (TaintedValues s)" "W \<notin> set (tl (Worklist s))"
      by (auto simp: pushes_def)
    moreover from this False assms(2) have "W \<notin> set (Worklist s)"
      by (cases "Worklist s") auto
    ultimately have "covered_value m s W"
      using assms(1) by (simp add: awaiting_def)
    then show ?thesis
      by (rule covered_value_mono[OF grows_trans[OF grows_pop discovers_grows[OF discovers_upward_value]]])
  qed
qed

lemma awaiting_drain: "awaiting m s \<Longrightarrow> awaiting m (upward_drain cfg m s)"
  by (rule upward_drain_keeps[where I = "awaiting m"]) (auto intro: awaiting_value)

subsection \<open>Loads\<close>

definition unkilled_scanned :: "llmodule \<Rightarrow> tstate \<Rightarrow> addr \<Rightarrow> bool" where
  "unkilled_scanned m s Ptr = (Ptr \<in> set (TaintedPointers s) \<and>
     (\<forall>I \<in> set (all_insts m). reads_pointer m I Ptr \<longrightarrow>
        I \<in> set (TaintedValues s) \<or> isLoadBeforeTaintOrigin m I Ptr (PointerTaintOrigin s)))"

lemma before_origin_frame:
  "grows m s t \<Longrightarrow> Ptr \<in> set (TaintedPointers s) \<Longrightarrow>
     isLoadBeforeTaintOrigin m I Ptr (PointerTaintOrigin t) =
     isLoadBeforeTaintOrigin m I Ptr (PointerTaintOrigin s)"
  using grows_origin[of m s t Ptr] by (simp add: isLoadBeforeTaintOrigin_iff)

lemma unkilled_scanned_mono: "grows m s t \<Longrightarrow> unkilled_scanned m s Ptr \<Longrightarrow> unkilled_scanned m t Ptr"
  unfolding unkilled_scanned_def using growsD(1,3)[of m s t] before_origin_frame[of m s t Ptr]
  by (metis subset_iff)

lemma scan_all_loads:
  assumes "Ptr \<in> set pts" "Ptr \<in> set (TaintedPointers s)"
  shows "unkilled_scanned m (fst (scanLoadsFromTaintedPointers cfg m pts None s)) Ptr"
  using assms unfolding unkilled_scanned_def by (auto simp: scan_tainted live_load_def killed_before_def)

lemma upward_scan_invariant:
  "awaiting m s \<Longrightarrow> \<forall>Ptr \<in> set usc. unkilled_scanned m s Ptr \<Longrightarrow> upward_scan cfg m usc s = (usc', t) \<Longrightarrow>
     awaiting m t \<and> (\<forall>Ptr \<in> set usc'. unkilled_scanned m t Ptr)"
proof (induction cfg m usc s rule: upward_scan.induct)
  case (1 cfg m usc s)
  let ?s1 = "upward_drain cfg m s" and ?pts = "pointers_to_scan usc (upward_drain cfg m s)"
  let ?s2 = "fst (scanLoadsFromTaintedPointers cfg m ?pts None ?s1)"
  have a1: "awaiting m ?s1" by (rule awaiting_drain[OF "1.prems"(1)])
  have u1: "\<forall>Ptr \<in> set usc. unkilled_scanned m ?s1 Ptr"
    using "1.prems"(2) unkilled_scanned_mono[OF discovers_grows[OF discovers_upward_drain]] by blast
  show ?case
  proof (cases "?pts = []")
    case True
    then have "upward_scan cfg m usc s = (usc, ?s1)"
      by (subst upward_scan.simps) simp
    with "1.prems"(3) a1 u1 show ?thesis by simp
  next
    case False
    have step: "upward_scan cfg m usc s = upward_scan cfg m (mark_scanned ?pts usc) ?s2"
      using False by (subst upward_scan.simps) (simp add: Let_def)
    have a2: "awaiting m ?s2"
      by (rule awaiting_step[OF a1 discovers_grows[OF discovers_scan] pushes_scan])
    have "unkilled_scanned m ?s2 Ptr" if "Ptr \<in> set ?pts" for Ptr
      using that by (intro scan_all_loads) simp_all
    moreover have "unkilled_scanned m ?s2 Ptr" if "Ptr \<in> set usc" for Ptr
      using u1 that unkilled_scanned_mono[OF discovers_grows[OF discovers_scan]] by blast
    ultimately have "\<forall>Ptr \<in> set (mark_scanned ?pts usc). unkilled_scanned m ?s2 Ptr"
      by (metis UnE set_mark_scanned)
    with "1.IH"[OF refl refl False a2] step "1.prems"(3) show ?thesis by simp
  qed
qed

subsection \<open>Calls\<close>

text \<open>5a: every call of a function that returns taint.\<close>

definition calls_tainted :: "llmodule \<Rightarrow> tstate \<Rightarrow> addr \<Rightarrow> bool" where
  "calls_tainted m s F = (\<forall>I \<in> set (all_insts m). \<forall>cv args.
     as_call m I = Some (F, cv, args) \<longrightarrow> I \<in> set (TaintedValues s))"

text \<open>5b: the argument at a tainted position of every call.\<close>

definition arg_tainted :: "llmodule \<Rightarrow> tstate \<Rightarrow> addr \<Rightarrow> addr \<Rightarrow> bool" where
  "arg_tainted m s C A =
     (if getPointerParameterOrigin m A \<noteq> nullptr
      then func_of_inst m C \<noteq> nullptr \<longrightarrow>
             (func_of_inst m C, arg_no m (getPointerParameterOrigin m A)) \<in> ptr_params s
      else pointed_var m A \<noteq> nullptr \<longrightarrow> pointed_var m A \<in> set (TaintedPointers s))"

definition args_tainted :: "llmodule \<Rightarrow> tstate \<Rightarrow> addr \<Rightarrow> nat \<Rightarrow> bool" where
  "args_tainted m s F i = (\<forall>I \<in> set (all_insts m). \<forall>cv args.
     as_call m I = Some (F, cv, args) \<longrightarrow> i < length args \<longrightarrow> arg_tainted m s I (args ! i))"

lemma calls_tainted_mono: "grows m s t \<Longrightarrow> calls_tainted m s F \<Longrightarrow> calls_tainted m t F"
  unfolding calls_tainted_def using growsD(1)[of m s t] by blast

lemma arg_tainted_mono: "grows m s t \<Longrightarrow> arg_tainted m s C A \<Longrightarrow> arg_tainted m t C A"
  unfolding arg_tainted_def using growsD(3,7)[of m s t] by (auto split: if_splits)

lemma args_tainted_mono: "grows m s t \<Longrightarrow> args_tainted m s F i \<Longrightarrow> args_tainted m t F i"
  unfolding args_tainted_def using arg_tainted_mono by blast

lemma returning_call_taints:
  "as_call m I = Some (TF, cv, args) \<Longrightarrow>
     I \<in> set (TaintedValues (fst (returning_call cfg m TF I x)))"
  by (cases x) (auto simp: Let_def)

lemma callers_of_returning_taints: "calls_tainted m (callers_of_returning cfg m TF s) TF"
  unfolding calls_tainted_def
proof (intro ballI allI impI)
  fix I cv args assume I: "I \<in> set (all_insts m)" and c: "as_call m I = Some (TF, cv, args)"
  have "(\<exists>cv args. as_call m I = Some (TF, cv, args)) \<longrightarrow>
      I \<in> set (TaintedValues (fst (fold (returning_call cfg m TF) (all_insts m) x)))" for x
  proof (rule fold_establishes[where Q = "\<lambda>I x. (\<exists>cv args. as_call m I = Some (TF, cv, args)) \<longrightarrow>
        I \<in> set (TaintedValues (fst x))", OF _ _ I])
    show "(\<exists>cv args. as_call m I = Some (TF, cv, args)) \<longrightarrow>
        I \<in> set (TaintedValues (fst (returning_call cfg m TF J x)))"
      if "(\<exists>cv args. as_call m I = Some (TF, cv, args)) \<longrightarrow> I \<in> set (TaintedValues (fst x))" for I J x
      using that growsD(1)[OF discovers_grows[OF discovers_returning_call[of m x cfg TF J]]] by blast
  qed (use returning_call_taints in blast)
  with c show "I \<in> set (TaintedValues (callers_of_returning cfg m TF s))"
    by (auto simp: callers_of_returning_def split_beta simp del: append.simps)
qed

lemma step_5a_taints:
  assumes "F \<in> set (FunctionsReturningTaint s)"
  shows "calls_tainted m (step_5a cfg m s) F"
  unfolding step_5a_def
proof (rule fold_establishes[where Q = "\<lambda>F s. calls_tainted m s F"])
  show "calls_tainted m (callers_of_returning cfg m y s) x" if "calls_tainted m s x" for x y s
    by (rule calls_tainted_mono[OF discovers_grows[OF discovers_callers_of_returning] that])
qed (use assms callers_of_returning_taints in auto)

lemma taint_pointed_taints: "PV \<noteq> nullptr \<Longrightarrow>
    PV \<in> set (TaintedPointers (taint_pointed cfg m TF C i PV s))"
  using growsD(3)[OF discovers_grows[OF discovers_struct_fields]]
  by (fastforce simp: taint_pointed_def Let_def simp del: append.simps)

lemma param_arg_taints:
  assumes "i < length args"
  shows "arg_tainted m (param_arg cfg m TF C args i s) C (args ! i)"
  using assms taint_pointed_taints
  by (auto simp: arg_tainted_def param_arg_def pass_through_def Let_def simp del: append.simps)

lemma param_call_taints:
  assumes "as_call m I = Some (TF, cv, args)" "i \<in> set ps" "i < length args"
  shows "arg_tainted m (fst (param_call cfg m TF ps I x)) I (args ! i)"
proof (cases x)
  case (Pair s f)
  have "i < length args \<longrightarrow> arg_tainted m (fold (param_arg cfg m TF I args) (sort ps) s) I (args ! i)"
  proof (rule fold_establishes[where Q = "\<lambda>i s. i < length args \<longrightarrow> arg_tainted m s I (args ! i)"])
    show "i < length args \<longrightarrow> arg_tainted m (param_arg cfg m TF I args j s) I (args ! i)"
      if "i < length args \<longrightarrow> arg_tainted m s I (args ! i)" for i j s
      using that arg_tainted_mono[OF discovers_grows[OF discovers_param_arg]] by blast
  qed (use assms(2) param_arg_taints in auto)
  with assms show ?thesis by (simp add: Pair)
qed

lemma callers_of_tainting_taints:
  assumes "i \<in> set ps"
  shows "args_tainted m (callers_of_tainting cfg m (TF, ps) s) TF i"
  unfolding args_tainted_def
proof (intro ballI allI impI)
  fix I cv args
  assume I: "I \<in> set (all_insts m)" and c: "as_call m I = Some (TF, cv, args)" "i < length args"
  let ?Q = "\<lambda>I x. \<forall>cv args. as_call m I = Some (TF, cv, args) \<longrightarrow> i < length args \<longrightarrow>
      arg_tainted m (fst x) I (args ! i)"
  have "?Q I (fold (param_call cfg m TF ps) (all_insts m) x)" for x
  proof (rule fold_establishes[where Q = ?Q, OF _ _ I])
    show "?Q I (param_call cfg m TF ps J x)" if "?Q I x" for I J x
      using that arg_tainted_mono[OF discovers_grows[OF discovers_param_call]] by blast
  qed (use assms param_call_taints in blast)
  with c have q: "arg_tainted m (fst (fold (param_call cfg m TF ps) (all_insts m) x)) I (args ! i)" for x
    by blast
  have g: "grows m s' (emit t v tx s')" for s' t v tx by (intro grow_intros grows_refl)
  show "arg_tainted m (callers_of_tainting cfg m (TF, ps) s) I (args ! i)"
    unfolding callers_of_tainting.simps split_beta
    using q arg_tainted_mono[OF g q] by (simp del: append.simps)
qed

lemma step_5b_taints:
  assumes "(F, i) \<in> ptr_params s"
  shows "args_tainted m (step_5b cfg m s) F i"
proof -
  let ?ps = "dm_get [] (FunctionsTaintingPointerParams s) F"
  have i: "i \<in> set ?ps" using assms by (simp add: ptr_params_def)
  then have "map_of (FunctionsTaintingPointerParams s) F = Some ?ps"
    by (cases "map_of (FunctionsTaintingPointerParams s) F") (simp_all add: dm_get_def)
  then have "(F, ?ps) \<in> set (sort_key fst (FunctionsTaintingPointerParams s))"
    by (auto dest: map_of_SomeD)
  then have "\<forall>i \<in> set (snd (F, ?ps)). args_tainted m (step_5b cfg m s) (fst (F, ?ps)) i"
    unfolding step_5b_def
  proof (rule fold_establishes[where Q = "\<lambda>fp s. \<forall>i \<in> set (snd fp). args_tainted m s (fst fp) i", rotated 2])
    show "\<forall>i \<in> set (snd x). args_tainted m (callers_of_tainting cfg m y s) (fst x) i"
      if "\<forall>i \<in> set (snd x). args_tainted m s (fst x) i" for x y s
      using that args_tainted_mono[OF discovers_grows[OF discovers_callers_of_tainting]] by blast
    show "\<forall>i \<in> set (snd x). args_tainted m (callers_of_tainting cfg m x s) (fst x) i" for x s
      by (cases x) (simp add: callers_of_tainting_taints del: callers_of_tainting.simps)
  qed
  with i show ?thesis by simp
qed

subsection \<open>The end of the recursion\<close>

lemma upward_round_end:
  assumes r: "upward_round cfg m n usc s = (usc', t)"
    and inv: "awaiting m s" "\<forall>Ptr \<in> set usc. unkilled_scanned m s Ptr"
  shows "awaiting m t" "\<forall>Ptr \<in> set usc'. unkilled_scanned m t Ptr"
    "\<not> discoveredNewFunctions t \<Longrightarrow> F \<in> set (FunctionsReturningTaint t) \<Longrightarrow> calls_tainted m t F"
    "\<not> discoveredNewFunctions t \<Longrightarrow> (F, i) \<in> ptr_params t \<Longrightarrow> args_tainted m t F i"
proof -
  let ?s0 = "set_discovered False s"
  let ?s1 = "emit_if (Verbose cfg) VERBOSE nullptr
      (''--- Upward Tracking Iteration '' @ show_nat n @ '' ---'')
      (emit_if (Verbose cfg) VERBOSE nullptr '''' ?s0)"
  let ?a = "step_5a cfg m ?s1"
  let ?b = "step_5b cfg m ?a"
  obtain s3 where u: "upward_scan cfg m usc ?b = (usc', s3)"
      "t = (if news s s3 then set_discovered True s3 else s3)"
    using r unfolding upward_round_def Let_def news_def by (auto split: prod.splits)
  have d1: "discovers m ?s0 ?s1" by (rule discovers_trans[OF discovers_emit(2) discovers_emit(2)])
  have d3: "discovers m ?b s3" using discovers_upward_scan[of m ?b cfg usc] unfolding u(1) snd_conv .
  have gb: "grows m ?s1 ?b"
    by (rule discovers_grows[OF discovers_trans[OF discovers_5a discovers_5b]])
  have g0: "grows m s ?s1" and p0: "pushes s ?s1"
    by (intro grow_intros grows_refl push_intros pushes_refl)+
  have gt: "grows m s3 t" and pt: "pushes s3 t"
    by (auto simp: u(2) intro: grows_emit pushes_prims)
  have b: "awaiting m ?b"
    by (rule awaiting_step[OF awaiting_step[OF inv(1) g0 p0] gb pushes_5ab])
  have ub: "\<forall>Ptr \<in> set usc. unkilled_scanned m ?b Ptr"
    using inv(2) unkilled_scanned_mono[OF grows_trans[OF g0 gb]] by blast
  note inv3 = upward_scan_invariant[OF b ub u(1)]
  show "awaiting m t" by (rule awaiting_step[OF _ gt pt]) (use inv3 in simp)
  show "\<forall>Ptr \<in> set usc'. unkilled_scanned m t Ptr"
    using inv3 unkilled_scanned_mono[OF gt] by blast
  have quiet: "set (FunctionsReturningTaint t) = set (FunctionsReturningTaint ?a)
      \<and> ptr_params t = ptr_params ?a \<and> set (FunctionsReturningTaint ?s1) = set (FunctionsReturningTaint ?a)"
    if nd: "\<not> discoveredNewFunctions t"
  proof -
    have t: "t = s3" using nd by (simp add: u(2) split: if_splits)
    have "discovers m ?a s3" by (rule discovers_trans[OF discovers_5b d3])
    moreover have "discovers m ?s1 ?a" by (rule discovers_5a)
    ultimately show ?thesis using nd unfolding t discovers_def by metis
  qed
  have ga: "grows m ?a t" and ga2: "grows m ?b t"
    by (rule grows_trans[OF discovers_grows[OF discovers_trans[OF discovers_5b d3]] gt])
      (rule grows_trans[OF discovers_grows[OF d3] gt])
  show "calls_tainted m t F" if "\<not> discoveredNewFunctions t" "F \<in> set (FunctionsReturningTaint t)"
    by (rule calls_tainted_mono[OF ga step_5a_taints]) (use quiet[OF that(1)] that(2) in blast)
  show "args_tainted m t F i" if "\<not> discoveredNewFunctions t" "(F, i) \<in> ptr_params t"
    by (rule args_tainted_mono[OF ga2 step_5b_taints]) (use quiet[OF that(1)] that(2) in simp)
qed

lemma upward_loop_end:
  assumes "awaiting m s" and t_def: "t = upward_loop cfg m k [] s"
  shows "Worklist t = []"
    "V \<in> set (TaintedValues t) \<Longrightarrow> covered_value m t V"
    "Ptr \<in> set (TaintedPointers t) \<Longrightarrow> unkilled_scanned m t Ptr"
    "F \<in> set (FunctionsReturningTaint t) \<Longrightarrow> calls_tainted m t F"
    "(F, i) \<in> ptr_params t \<Longrightarrow> args_tainted m t F i"
proof -
  let ?P = "\<lambda>usc s. awaiting m s \<and> (\<forall>Ptr \<in> set usc. unkilled_scanned m s Ptr)"
  have "?P [] s" using assms(1) by simp
  then obtain n usc0 s0 usc' where P: "?P usc0 s0" and r: "upward_round cfg m n usc0 s0 = (usc', t)"
      and nd: "\<not> discoveredNewFunctions t"
    using upward_loop_rule[where P = ?P and cfg = cfg and m = m and k = k and usc = "[]" and s = s]
      upward_round_end(1,2) unfolding t_def by metis
  note e = upward_round_end[OF r conjunct1[OF P] conjunct2[OF P]]
  show wl: "Worklist t = []" by (rule upward_round_undiscovered(3)[OF r])
  show "V \<in> set (TaintedValues t) \<Longrightarrow> covered_value m t V"
    using e(1) wl by (simp add: awaiting_def)
  show "Ptr \<in> set (TaintedPointers t) \<Longrightarrow> unkilled_scanned m t Ptr"
    using e(2) upward_round_undiscovered(4)[OF r] by blast
  show "F \<in> set (FunctionsReturningTaint t) \<Longrightarrow> calls_tainted m t F" by (rule e(3)[OF nd])
  show "(F, i) \<in> ptr_params t \<Longrightarrow> args_tainted m t F i" by (rule e(4)[OF nd])
qed

end
