(* ===== verification/Soundness.thy ===== *)
theory Soundness
  imports Upward_Closure
begin

text \<open>
  Nothing is tainted without a reason. \<open>flows\<close> is the least set of facts closed under the
  ways taint travels, starting at the occurrences of the constant; it has no state, no
  worklist and no order. Every phase keeps the taint state inside it (\<open>sound\<close>).
\<close>

datatype fact = Value addr | Pointer addr | Returns addr | Param addr nat

text \<open>An occurrence of the constant in the named function.\<close>

definition source :: "pass_params \<Rightarrow> llmodule \<Rightarrow> addr \<Rightarrow> addr \<Rightarrow> bool" where
  "source cfg m I CI =
     (\<exists>F \<in> set (funcs m). fname F = FunctionName cfg \<and> I \<in> set (func_insts F)
        \<and> (TargetOpcode cfg = [] \<or> opcode_of m I = TargetOpcode cfg)
        \<and> CI \<in> set (operands_of m I) \<and> as_const_int m CI = Some (ConstantToTrack cfg))"

text \<open>
  The rules, with the mode each of them needs. Calls are entered in \<open>InterprocMode\<close> only; with
  \<open>UpwardInterprocMode\<close> taint goes to callers, and returns and stores are tainted themselves.
\<close>

inductive flows :: "pass_params \<Rightarrow> llmodule \<Rightarrow> fact \<Rightarrow> bool" for cfg m where
  src: "source cfg m I CI \<Longrightarrow> flows cfg m (Value I)"
| src_return: "source cfg m I CI \<Longrightarrow> as_ret m I = Some CI \<Longrightarrow> flows cfg m (Returns (func_of_inst m I))"
| src_store: "source cfg m I CI \<Longrightarrow> as_store m I = Some (v, p) \<Longrightarrow> local_store m p \<Longrightarrow>
    flows cfg m (Pointer (strip m p))"
| src_param: "source cfg m I CI \<Longrightarrow> as_store m I = Some (v, p) \<Longrightarrow> as_global m (strip m p) = None \<Longrightarrow>
    getPointerParameterOrigin m p \<noteq> nullptr \<Longrightarrow>
    flows cfg m (Param (func_of_inst m I) (arg_no m (getPointerParameterOrigin m p)))"
| src_call: "source cfg m I CI \<Longrightarrow> InterprocMode cfg \<Longrightarrow> as_call m I = Some (F, cv, args) \<Longrightarrow>
    F \<noteq> nullptr \<Longrightarrow> j < length args \<Longrightarrow> args ! j = CI \<Longrightarrow> \<not> is_declaration m F \<Longrightarrow> j < length (args_of m F) \<Longrightarrow>
    flows cfg m (Value (args_of m F ! j))"
| "use": "flows cfg m (Value V) \<Longrightarrow> U \<in> set (users_of m V) \<Longrightarrow> is_inst m U \<Longrightarrow>
    UpwardInterprocMode cfg \<or> marks m V U \<Longrightarrow> flows cfg m (Value U)"
| call: "flows cfg m (Value V) \<Longrightarrow> U \<in> set (users_of m V) \<Longrightarrow> InterprocMode cfg \<Longrightarrow>
    as_call m U = Some (F, cv, args) \<Longrightarrow> F \<noteq> nullptr \<Longrightarrow> first_arg V args = Some j \<Longrightarrow>
    \<not> is_declaration m F \<Longrightarrow> j < length (args_of m F) \<Longrightarrow> flows cfg m (Value (args_of m F ! j))"
| indirect: "flows cfg m (Value V) \<Longrightarrow> U \<in> set (users_of m V) \<Longrightarrow> InterprocMode cfg \<Longrightarrow>
    IndirectCallMode cfg \<Longrightarrow> as_call m U = Some (nullptr, cv, args) \<Longrightarrow> first_arg V args = Some j \<Longrightarrow>
    T \<in> set (resolve_targets m (FunctionPointerTargets (build_targets cfg m init_state)) cv) \<Longrightarrow>
    \<not> is_declaration m T \<Longrightarrow> j < length (args_of m T) \<Longrightarrow> flows cfg m (Value (args_of m T ! j))"
| store: "flows cfg m (Value V) \<Longrightarrow> U \<in> set (users_of m V) \<Longrightarrow> as_store m U = Some (V, p) \<Longrightarrow>
    UpwardInterprocMode cfg \<or> local_store m p \<Longrightarrow> flows cfg m (Pointer (strip m p))"
| store_param: "flows cfg m (Value V) \<Longrightarrow> U \<in> set (users_of m V) \<Longrightarrow> as_store m U = Some (V, p) \<Longrightarrow>
    UpwardInterprocMode cfg \<or> as_global m (strip m p) = None \<Longrightarrow>
    getPointerParameterOrigin m p \<noteq> nullptr \<Longrightarrow>
    flows cfg m (Param (func_of_inst m U) (arg_no m (getPointerParameterOrigin m p)))"
| ret: "flows cfg m (Value V) \<Longrightarrow> U \<in> set (users_of m V) \<Longrightarrow> as_ret m U = Some V \<Longrightarrow>
    flows cfg m (Returns (func_of_inst m U))"
| load: "flows cfg m (Pointer P) \<Longrightarrow> I \<in> set (all_insts m) \<Longrightarrow> reads_pointer m I P \<Longrightarrow>
    flows cfg m (Value I)"
| returned: "flows cfg m (Returns F) \<Longrightarrow> UpwardInterprocMode cfg \<Longrightarrow> I \<in> set (all_insts m) \<Longrightarrow>
    as_call m I = Some (F, cv, args) \<Longrightarrow> flows cfg m (Value I)"
| passed: "flows cfg m (Param F j) \<Longrightarrow> UpwardInterprocMode cfg \<Longrightarrow> I \<in> set (all_insts m) \<Longrightarrow>
    as_call m I = Some (F, cv, args) \<Longrightarrow> j < length args \<Longrightarrow>
    getPointerParameterOrigin m (args ! j) \<noteq> nullptr \<Longrightarrow>
    flows cfg m (Param (func_of_inst m I) (arg_no m (getPointerParameterOrigin m (args ! j))))"
| pointed: "flows cfg m (Param F j) \<Longrightarrow> UpwardInterprocMode cfg \<Longrightarrow> I \<in> set (all_insts m) \<Longrightarrow>
    as_call m I = Some (F, cv, args) \<Longrightarrow> j < length args \<Longrightarrow>
    getPointerParameterOrigin m (args ! j) = nullptr \<Longrightarrow> pointed_var m (args ! j) \<noteq> nullptr \<Longrightarrow>
    flows cfg m (Pointer (pointed_var m (args ! j)))"
| field: "flows cfg m (Param F j) \<Longrightarrow> UpwardInterprocMode cfg \<Longrightarrow> I \<in> set (all_insts m) \<Longrightarrow>
    as_call m I = Some (F, cv, args) \<Longrightarrow> j < length args \<Longrightarrow>
    getPointerParameterOrigin m (args ! j) = nullptr \<Longrightarrow>
    as_alloca m (pointed_var m (args ! j)) = Some True \<Longrightarrow>
    U \<in> set (users_of m (pointed_var m (args ! j))) \<Longrightarrow> as_gep m U = Some g \<Longrightarrow>
    GU \<in> set (users_of m U) \<Longrightarrow> as_store m GU = Some (v, U) \<Longrightarrow>
    as_alloca m (strip m v) \<noteq> None \<Longrightarrow> flows cfg m (Pointer (strip m v))"

definition facts :: "tstate \<Rightarrow> fact set" where
  "facts s = Value ` (set (TaintedValues s) \<union> set (Worklist s)) \<union> Pointer ` set (TaintedPointers s)
     \<union> Returns ` set (FunctionsReturningTaint s)
     \<union> {Param f i | f i ps. (f, ps) \<in> set (FunctionsTaintingPointerParams s) \<and> i \<in> set ps}"

definition sound :: "pass_params \<Rightarrow> llmodule \<Rightarrow> tstate \<Rightarrow> bool" where
  "sound cfg m s = (facts s \<subseteq> Collect (flows cfg m)
     \<and> FunctionPointerTargets s = FunctionPointerTargets (build_targets cfg m init_state))"

lemma soundD:
  assumes "sound cfg m s"
  shows "v \<in> set (TaintedValues s) \<Longrightarrow> flows cfg m (Value v)"
    and "v \<in> set (Worklist s) \<Longrightarrow> flows cfg m (Value v)"
    and "p \<in> set (TaintedPointers s) \<Longrightarrow> flows cfg m (Pointer p)"
    and "f \<in> set (FunctionsReturningTaint s) \<Longrightarrow> flows cfg m (Returns f)"
    and "(f, ps) \<in> set (FunctionsTaintingPointerParams s) \<Longrightarrow> i \<in> set ps \<Longrightarrow> flows cfg m (Param f i)"
    and "FunctionPointerTargets s = FunctionPointerTargets (build_targets cfg m init_state)"
  using assms unfolding sound_def facts_def by blast+

lemma sound_ptr_params:
  assumes "sound cfg m s" "(f, i) \<in> ptr_params s"
  shows "flows cfg m (Param f i)"
proof -
  obtain ps where "map_of (FunctionsTaintingPointerParams s) f = Some ps" "i \<in> set ps"
    using assms(2) by (cases "map_of (FunctionsTaintingPointerParams s) f") (auto simp: ptr_params_def dm_get_def)
  then show ?thesis using soundD(5)[OF assms(1)] by (blast dest: map_of_SomeD)
qed

lemma set_dm_set: "set (dm_set k v m) \<subseteq> insert (k, v) (set m)"
  by (induction k v m rule: dm_set.induct) auto

lemma sound_same:
  "sound cfg m x \<Longrightarrow> facts t = facts x \<Longrightarrow> FunctionPointerTargets t = FunctionPointerTargets x \<Longrightarrow>
     sound cfg m t"
  by (simp add: sound_def)

text \<open>The rules take an operation apart like those of \<open>grow_intros\<close>.\<close>

lemma sound_prims:
  "sound cfg m x \<Longrightarrow> sound cfg m (emit t v tx x)"
  "sound cfg m x \<Longrightarrow> sound cfg m (emit_if c t v tx x)"
  "sound cfg m x \<Longrightarrow> sound cfg m (set_level v l x)"
  "sound cfg m x \<Longrightarrow> sound cfg m (set_flevel f l x)"
  "sound cfg m x \<Longrightarrow> sound cfg m (add_killed I x)"
  "sound cfg m x \<Longrightarrow> sound cfg m (add_fields f i ixs x)"
  "sound cfg m x \<Longrightarrow> sound cfg m (set_changed b x)"
  "sound cfg m x \<Longrightarrow> sound cfg m (set_discovered b x)"
  "sound cfg m x \<Longrightarrow> sound cfg m (ensureLevelSet m' I x)"
  "sound cfg m x \<Longrightarrow> sound cfg m (raise_function f l x)"
  "sound cfg m x \<Longrightarrow> sound cfg m (track_gep m' p x)"
  "sound cfg m x \<Longrightarrow> sound cfg m (record_fields f i ixs x)"
  by (erule sound_same;
      simp add: facts_def raise_function_def track_gep_def record_fields_def
        split: option.split prod.split)+

lemma sound_adds:
  "sound cfg m x \<Longrightarrow> flows cfg m (Value v) \<Longrightarrow> sound cfg m (taint_push v x)"
  "sound cfg m x \<Longrightarrow> flows cfg m (Pointer p) \<Longrightarrow> sound cfg m (taint_pointer p I x)"
  "sound cfg m x \<Longrightarrow> flows cfg m (Returns f) \<Longrightarrow> sound cfg m (add_returning f x)"
  by (auto simp: sound_def facts_def)

lemma sound_add_param:
  assumes "sound cfg m x" "flows cfg m (Param f i)"
  shows "sound cfg m (add_ptr_param f i x)"
proof -
  let ?ps = "dm_get [] (FunctionsTaintingPointerParams x) f"
  have "flows cfg m (Param f j)" if "j \<in> set ?ps" for j
    using sound_ptr_params[OF assms(1), of f j] that by (simp add: ptr_params_def)
  moreover have "(g, ps) = (f, ds_insert i ?ps) \<or> (g, ps) \<in> set (FunctionsTaintingPointerParams x)"
    if "(g, ps) \<in> set (FunctionsTaintingPointerParams (add_ptr_param f i x))" for g ps
    using that set_dm_set[of f "ds_insert i ?ps" "FunctionsTaintingPointerParams x"]
    by (auto simp: add_ptr_param_def)
  ultimately have "flows cfg m (Param g j)"
    if "(g, ps) \<in> set (FunctionsTaintingPointerParams (add_ptr_param f i x))" "j \<in> set ps" for g ps j
    using that soundD(5)[OF assms(1)] assms(2) by fastforce
  then show ?thesis
    using assms(1) by (auto simp: sound_def facts_def)
qed

lemmas sound_intros = sound_prims sound_adds sound_add_param

lemma sound_pop: "sound cfg m s \<Longrightarrow> sound cfg m (pop_worklist s)"
  by (cases "Worklist s") (auto simp: sound_def facts_def pop_worklist_def)

text \<open>Loops of sound steps.\<close>

lemma fold_sound:
  assumes "I s" "\<And>x s. x \<in> set xs \<Longrightarrow> I s \<Longrightarrow> I (f x s)"
  shows "I (fold f xs s)"
  using assms by (induction xs arbitrary: s) simp_all

subsection \<open>Seeding\<close>

lemma sound_taint_param:
  "sound cfg m x \<Longrightarrow> flows cfg m (Value (args_of m F ! i)) \<Longrightarrow> sound cfg m (taint_param cfg m mg F i l C x)"
  by (simp add: taint_param_def Let_def sound_intros)

lemma sound_seed_return:
  "source cfg m I CI \<Longrightarrow> sound cfg m x \<Longrightarrow> sound cfg m (seed_return cfg m I CI x)"
  using flows.src_return[of cfg m I CI]
  by (auto simp: seed_return_def Let_def intro!: sound_intros split: option.split)

lemma sound_seed_store:
  assumes src: "source cfg m I CI" and "sound cfg m x"
  shows "sound cfg m (seed_store cfg m I x)"
proof -
  have "fst (trackedPointerParameterOrigin m p) = nullptr \<or>
      flows cfg m (Param (func_of_inst m I) (arg_no m (fst (trackedPointerParameterOrigin m p))))"
    if "as_store m I = Some (v, p)" "as_global m (strip m p) = None" for v p
    using flows.src_param[OF src that] by (auto simp: tracked_origin_eq)
  with assms(2) flows.src_store[OF src] show ?thesis
    by (auto simp: seed_store_def local_store_def tracked_origin_eq Let_def split_beta intro!: sound_intros split: option.split)
qed

lemma sound_seed_call:
  assumes "source cfg m I CI" "sound cfg m x"
  shows "sound cfg m (seed_call cfg m I CI x)"
proof -
  have arg: "sound cfg m (seed_call_arg cfg m I CI F (j, A) s)"
    if "sound cfg m s" "as_call m I = Some (F, cv, args)" "F \<noteq> nullptr" "j < length args" "args ! j = A" for F cv args j A s
    using that flows.src_call[OF assms(1) _ that(2-4)]
    by (auto simp: seed_call_arg_def Let_def intro!: sound_intros sound_taint_param)
  have ind: "sound cfg m (seed_indirect_arg cfg m I CI (j, A) s)" if "sound cfg m s" for j A s
    using that by (auto simp: seed_indirect_arg_def intro!: sound_intros)
  show ?thesis
    unfolding seed_call_def using assms(2) arg ind
    by (auto intro!: fold_sound[where I = "sound cfg m"] simp: in_set_enumerate_eq split: option.split)
qed

lemma sound_seed_source:
  assumes "source cfg m I CI" "sound cfg m x"
  shows "sound cfg m (seed_source cfg m I CI x)"
  unfolding seed_source_def Let_def
  using assms(2) flows.src[OF assms(1)]
  by (intro sound_seed_call[OF assms(1)] sound_seed_store[OF assms(1)] sound_seed_return[OF assms(1)]
      sound_prims) (simp add: sound_intros)

lemma sound_seed:
  assumes "sound cfg m s"
  shows "sound cfg m (seed cfg m s)"
proof -
  have op: "sound cfg m (fst (seed_operand cfg m I no x))"
    if "sound cfg m (fst x)" "as_const_int m (snd no) = Some (ConstantToTrack cfg) \<longrightarrow> source cfg m I (snd no)"
    for I no x
    using that
    by (cases x; cases no)
      (auto simp: seed_operand.simps Let_def intro!: sound_seed_source sound_intros split: option.split)
  have inst: "sound cfg m (fst (seed_inst cfg m ni x))"
    if "sound cfg m (fst x)" "F \<in> set (funcs m)" "fname F = FunctionName cfg" "snd ni \<in> set (func_insts F)"
    for F ni x
  proof (cases x; cases ni)
    fix s occ stop n I assume x: "x = (s, occ, stop)" "ni = (n, I)"
    have ops: "sound cfg m (fst (fold (seed_operand cfg m I) (enumerate 1 (operands_of m I)) y))"
      if "sound cfg m (fst y)" "TargetOpcode cfg = [] \<or> opcode_of m I = TargetOpcode cfg" for y
      using that \<open>F \<in> _\<close> \<open>fname F = _\<close> \<open>snd ni \<in> _\<close> x
      by (intro fold_sound[where I = "\<lambda>x. sound cfg m (fst x)"] op)
        (auto simp: source_def in_set_enumerate_eq intro!: bexI[of _ F])
    show ?thesis
      using that x by (auto simp: seed_inst.simps Let_def simp del: append.simps One_nat_def intro!: sound_prims ops)
  qed
  have blk: "sound cfg m (fst (seed_block cfg m nb x))"
    if "sound cfg m (fst x)" "F \<in> set (funcs m)" "fname F = FunctionName cfg" "snd nb \<in> set (fblocks F)"
    for F nb x
  proof (cases x; cases nb)
    fix s occ stop n B assume x: "x = (s, occ, stop)" "nb = (n, B)"
    have insts: "sound cfg m (fst (fold (seed_inst cfg m) (enumerate 1 (binsts B)) y))"
      if "sound cfg m (fst y)" for y
      using that \<open>F \<in> _\<close> \<open>fname F = _\<close> \<open>snd nb \<in> _\<close> x
      by (intro fold_sound[where I = "\<lambda>x. sound cfg m (fst x)"] inst)
        (auto simp: func_insts_def in_set_enumerate_eq intro!: bexI[of _ B])
    show ?thesis
      using that x by (auto simp: seed_block.simps simp del: append.simps One_nat_def intro!: sound_prims insts)
  qed
  have "sound cfg m (fst (fold (seed_function cfg m) (funcs m) (s, 0, False)))"
    using assms
    by (intro fold_sound[where I = "\<lambda>x. sound cfg m (fst x)"])
      (auto simp: seed_function_def in_set_enumerate_eq
        intro!: fold_sound[where I = "\<lambda>x. sound cfg m (fst x)"] blk)
  then show ?thesis by (simp add: seed_def)
qed

subsection \<open>The forward phase\<close>

lemma sound_call_sink:
  assumes "sound cfg m s" "flows cfg m (Value V)" "U \<in> set (users_of m V)"
  shows "sound cfg m (call_sink cfg m V U s)"
proof -
  have ind: "sound cfg m (indirect_target cfg m V U i T x)"
    if "sound cfg m x" "as_call m U = Some (nullptr, cv, args)" "first_arg V args = Some i"
      "T \<in> set (resolve_targets m (FunctionPointerTargets s) cv)" "InterprocMode cfg" "IndirectCallMode cfg"
    for x T i cv args
    using that soundD(6)[OF assms(1)]
      flows.indirect[OF assms(2,3) \<open>InterprocMode cfg\<close> \<open>IndirectCallMode cfg\<close> that(2,3), of T]
    by (auto simp: indirect_target_def Let_def intro!: sound_intros sound_taint_param)
  have dir: "sound cfg m (call_direct cfg m V U F i s)"
    if "as_call m U = Some (F, cv, args)" "F \<noteq> nullptr" "first_arg V args = Some i" "\<not> is_declaration m F"
    for F i cv args
    using assms flows.call[OF assms(2,3) _ that]
    by (auto simp: call_direct_def Let_def intro!: sound_intros sound_taint_param)
  show ?thesis
    using assms(1) dir ind
    by (auto simp: call_sink_def call_indirect_def Let_def
        intro!: sound_intros fold_sound[where I = "sound cfg m"] split: option.split)
qed

lemma sound_forward_use:
  assumes "sound cfg m s" "flows cfg m (Value V)" "U \<in> set (users_of m V)"
  shows "sound cfg m (forward_use cfg m V U s)"
proof -
  let ?s1 = "call_sink cfg m V U (emit_if (Verbose cfg) VERBOSE U
      (''  [USER] Processing use: '' @ getValueName m U) s)"
  have 1: "sound cfg m ?s1"
    using assms by (intro sound_call_sink sound_prims)
  have pr: "sound cfg m (propagate cfg m V U x)" if "sound cfg m x" "is_inst m U" "marks m V U" for x
    using that flows.use[OF assms(2,3)] by (auto simp: propagate_def Let_def intro!: sound_intros)
  have st: "sound cfg m (fst (use_store cfg m U p ?s1))" if "as_store m U = Some (V, p)" for p
    using 1 flows.store[OF assms(2,3) that] flows.store_param[OF assms(2,3) that]
    by (auto simp: use_store_def local_store_def Let_def simp del: append.simps intro!: sound_intros split: option.split)
  have rt: "sound cfg m (use_return cfg m U ?s1)" if "as_ret m U = Some V"
    using 1 flows.ret[OF assms(2,3) that]
    by (auto simp: use_return_def Let_def simp del: append.simps intro!: sound_intros)
  have on: "local_store m p" if "snd (use_store cfg m U p x)" for p x
    using that by (auto simp: use_store_def local_store_def Let_def split: option.splits if_splits)
  show ?thesis
    using assms(1,3) 1 pr st rt on
    by (auto simp: forward_use_def marks_def Let_def split_beta simp del: append.simps split: option.split)
qed

lemma sound_process_value:
  "sound cfg m s \<Longrightarrow> flows cfg m (Value V) \<Longrightarrow> sound cfg m (process_value cfg m V s)"
  by (auto simp: process_value_def intro!: fold_sound[where I = "sound cfg m"] sound_forward_use sound_prims)

lemma sound_drain: "sound cfg m s \<Longrightarrow> sound cfg m (drain cfg m s)"
  by (rule drain_invariant[where I = "sound cfg m"])
    (auto intro!: sound_process_value sound_pop dest: soundD(2)[OF _ hd_in_set])

lemma sound_find_kills: "sound cfg m s \<Longrightarrow> sound cfg m (find_kills cfg m s)"
  by (erule sound_same) (simp_all add: facts_def)

lemma sound_scan_load:
  "sound cfg m (fst x) \<Longrightarrow> flows cfg m (Pointer P) \<Longrightarrow> I \<in> set (all_insts m) \<Longrightarrow>
     sound cfg m (fst (scan_load cfg m ks P I x))"
  using flows.load[of cfg m P I]
  by (cases x) (auto simp: scan_load.simps Let_def reads_pointer_def simp del: append.simps
      intro!: sound_intros split: option.splits)

lemma sound_scan:
  assumes "sound cfg m s" "set pts \<subseteq> set (TaintedPointers s)"
  shows "sound cfg m (fst (scanLoadsFromTaintedPointers cfg m pts ks s))"
  unfolding scanLoadsFromTaintedPointers_def scan_pointer_def
  using assms soundD(3)[OF assms(1)]
  by (intro fold_sound[where I = "\<lambda>x. sound cfg m (fst x)"] sound_scan_load) auto

lemma sound_forward_round:
  assumes "sound cfg m s" "forward_round cfg m sc s = (sc', t)"
  shows "sound cfg m t"
proof -
  have 2: "sound cfg m (find_kills cfg m (drain cfg m (set_changed False s)))"
    using assms(1) by (intro sound_find_kills sound_drain sound_prims)
  have "sound cfg m (fst (scanLoadsFromTaintedPointers cfg m
      (pointers_to_scan sc (find_kills cfg m (drain cfg m (set_changed False s)))) ks
      (find_kills cfg m (drain cfg m (set_changed False s)))))" for ks
    by (rule sound_scan[OF 2]) (simp only: set_pointers_to_scan, blast)
  then show ?thesis
    using assms(2) unfolding forward_round_def Let_def split_beta by (auto intro!: sound_prims(7))
qed

lemma sound_forward: "sound cfg m s \<Longrightarrow> sound cfg m (forward cfg m s)"
proof -
  have "sound cfg m s \<Longrightarrow> sound cfg m (forward_loop cfg m sc s)" for sc
  proof (induction cfg m sc s rule: forward_loop.induct)
    case (1 cfg m sc s)
    obtain sc' s' where r: "forward_round cfg m sc s = (sc', s')" by fastforce
    show ?case
      using "1.IH"[OF r[symmetric]] sound_forward_round[OF "1.prems" r]
      by (subst forward_loop.simps) (simp add: r)
  qed
  then show "sound cfg m s \<Longrightarrow> ?thesis" by (simp add: forward_def)
qed

subsection \<open>The upward phase\<close>

lemma sound_returning_call:
  "sound cfg m (fst x) \<Longrightarrow> UpwardInterprocMode cfg \<Longrightarrow> flows cfg m (Returns TF) \<Longrightarrow> I \<in> set (all_insts m) \<Longrightarrow>
     sound cfg m (fst (returning_call cfg m TF I x))"
  by (cases x) (auto simp: Let_def simp del: append.simps intro!: sound_intros flows.returned
      split: option.split)

lemma sound_5a:
  assumes "sound cfg m s" "UpwardInterprocMode cfg"
  shows "sound cfg m (step_5a cfg m s)"
  unfolding step_5a_def
proof (rule fold_sound[where I = "sound cfg m", OF assms(1)])
  fix TF t assume TF: "TF \<in> set (sort (FunctionsReturningTaint s))" and t: "sound cfg m t"
  have r: "flows cfg m (Returns TF)" using soundD(4)[OF assms(1)] TF by simp
  have "sound cfg m (fst (fold (returning_call cfg m TF) (all_insts m) (emit_if c e v tx t, False)))"
    for c e v tx
    by (rule fold_sound[where I = "\<lambda>x. sound cfg m (fst x)"])
      (auto intro: t sound_prims sound_returning_call[OF _ assms(2) r])
  then show "sound cfg m (callers_of_returning cfg m TF t)"
    unfolding callers_of_returning_def split_beta by (auto simp del: append.simps intro: sound_prims)
qed

lemma sound_struct_fields:
  assumes "sound cfg m s" "flows cfg m (Param TF j)" "UpwardInterprocMode cfg" "I \<in> set (all_insts m)"
    "as_call m I = Some (TF, cv, args)" "j < length args" "getPointerParameterOrigin m (args ! j) = nullptr"
  shows "sound cfg m (struct_fields m TF i I (pointed_var m (args ! j)) s)"
proof -
  let ?PV = "pointed_var m (args ! j)"
  have st: "sound cfg m (struct_store m I U ix GU t)"
    if "as_alloca m ?PV = Some True" "U \<in> set (users_of m ?PV)" "as_gep m U = Some g"
      "GU \<in> set (users_of m U)" "sound cfg m t" for U g GU t ix
    using that(5) flows.field[OF assms(2-7) that(1-4)]
    by (auto simp: struct_store_def Let_def simp del: append.simps intro!: sound_intros split: option.split)
  have us: "sound cfg m (struct_user m I acc U t)"
    if "as_alloca m ?PV = Some True" "U \<in> set (users_of m ?PV)" "sound cfg m t" for U t acc
    using that(3) st[OF that(1,2)]
    by (auto simp: struct_user_def Let_def intro!: fold_sound[where I = "sound cfg m"] split: option.split)
  show ?thesis
    using assms(1) us by (auto simp: struct_fields_def intro!: fold_sound[where I = "sound cfg m"])
qed

lemma sound_param_arg:
  assumes "sound cfg m s" "flows cfg m (Param TF j)" "UpwardInterprocMode cfg" "I \<in> set (all_insts m)"
    "as_call m I = Some (TF, cv, args)"
  shows "sound cfg m (param_arg cfg m TF I args j s)"
proof (cases "j < length args")
  case True
  let ?A = "args ! j"
  show ?thesis
  proof (cases "getPointerParameterOrigin m ?A = nullptr")
    case False
    then show ?thesis
      using True assms(1) flows.passed[OF assms(2-5) True False]
      by (auto simp: param_arg_def pass_through_def Let_def simp del: append.simps intro!: sound_intros)
  next
    case None: True
    have "sound cfg m (taint_pointed cfg m TF I j (pointed_var m ?A) s)"
    proof (cases "pointed_var m ?A = nullptr")
      case True
      then show ?thesis by (simp add: taint_pointed_def assms(1))
    next
      case False
      then show ?thesis
        using assms(1) flows.pointed[OF assms(2-5) \<open>j < length args\<close> None False]
        by (auto simp: taint_pointed_def Let_def simp del: append.simps
            intro!: sound_struct_fields[OF _ assms(2-5) \<open>j < length args\<close> None] sound_intros)
    qed
    with None True show ?thesis by (simp add: param_arg_def)
  qed
qed (simp add: param_arg_def assms(1))

lemma sound_5b:
  assumes "sound cfg m s" "UpwardInterprocMode cfg"
  shows "sound cfg m (step_5b cfg m s)"
  unfolding step_5b_def
proof (rule fold_sound[where I = "sound cfg m", OF assms(1)])
  fix fp t assume fp: "fp \<in> set (sort_key fst (FunctionsTaintingPointerParams s))" and t: "sound cfg m t"
  obtain TF ps where e: "fp = (TF, ps)" by fastforce
  have r: "flows cfg m (Param TF j)" if "j \<in> set ps" for j
    using soundD(5)[OF assms(1) _ that] fp e by simp
  have "sound cfg m (fst (param_call cfg m TF ps I x))"
    if "sound cfg m (fst x)" "I \<in> set (all_insts m)" for I x
    using that r assms(2)
    by (cases x) (auto intro!: fold_sound[where I = "sound cfg m"] sound_param_arg split: option.split)
  then have "sound cfg m (fst (fold (param_call cfg m TF ps) (all_insts m) (emit_if c k v tx t, False)))"
    for c k v tx
    by (intro fold_sound[where I = "\<lambda>x. sound cfg m (fst x)"]) (auto intro: t sound_prims)
  then show "sound cfg m (callers_of_tainting cfg m fp t)"
    unfolding e callers_of_tainting.simps split_beta by (auto simp del: append.simps intro: sound_prims)
qed

lemma sound_store_flag:
  assumes "sound cfg m s" "flows cfg m (Value V)" "U \<in> set (users_of m V)" "UpwardInterprocMode cfg"
  shows "sound cfg m (case processStoreForTaint cfg m U V s of
    (s', True) \<Rightarrow> set_discovered True s' | (s', False) \<Rightarrow> s')"
proof -
  have "sound cfg m (fst (processStoreForTaint cfg m U V s))"
    using assms(1,4) flows.store[OF assms(2,3)] flows.store_param[OF assms(2,3)]
    by (auto simp: processStoreForTaint_def Let_def simp del: append.simps intro!: sound_intros
        split: option.split)
  then show ?thesis by (auto simp: split_beta intro: sound_prims split: bool.split)
qed

lemma sound_upward_use:
  assumes "sound cfg m (fst x)" "flows cfg m (Value V)" "U \<in> set (users_of m V)" "UpwardInterprocMode cfg"
  shows "sound cfg m (fst (upward_use cfg m V U x))"
  using assms(1,4) flows.use[OF assms(2,3)] flows.ret[OF assms(2,3)]
  by (cases x) (auto simp: Let_def simp del: append.simps intro!: sound_intros sound_store_flag[OF _ assms(2-4)])

lemma sound_upward_value:
  assumes "sound cfg m s" "flows cfg m (Value V)" "UpwardInterprocMode cfg"
  shows "sound cfg m (upward_value cfg m V s)"
proof -
  have "sound cfg m (fst (fold (upward_use cfg m V) (getSortedUsers m V) (emit_if c t v tx s, False)))"
    for c t v tx
    by (rule fold_sound[where I = "\<lambda>x. sound cfg m (fst x)"])
      (auto intro: assms sound_prims sound_upward_use)
  then show ?thesis
    unfolding upward_value_def split_beta by (auto simp del: append.simps intro: sound_prims)
qed

lemma sound_upward_drain:
  "sound cfg m s \<Longrightarrow> UpwardInterprocMode cfg \<Longrightarrow> sound cfg m (upward_drain cfg m s)"
  by (rule upward_drain_keeps[where I = "sound cfg m"])
    (auto intro!: sound_upward_value sound_pop dest: soundD(2)[OF _ hd_in_set])

lemma sound_upward_scan:
  "sound cfg m s \<Longrightarrow> UpwardInterprocMode cfg \<Longrightarrow> sound cfg m (snd (upward_scan cfg m usc s))"
proof (induction cfg m usc s rule: upward_scan.induct)
  case (1 cfg m usc s)
  let ?s1 = "upward_drain cfg m s" and ?pts = "pointers_to_scan usc (upward_drain cfg m s)"
  have s1: "sound cfg m ?s1" by (rule sound_upward_drain[OF "1.prems"])
  show ?case
  proof (cases "?pts = []")
    case True
    with s1 show ?thesis by (subst upward_scan.simps) simp
  next
    case False
    have "sound cfg m (fst (scanLoadsFromTaintedPointers cfg m ?pts None ?s1))"
      by (rule sound_scan[OF s1]) (simp only: set_pointers_to_scan, blast)
    from "1.IH"[OF refl refl False this "1.prems"(2)] False show ?thesis
      by (subst upward_scan.simps) (simp add: Let_def)
  qed
qed

lemma sound_upward: "sound cfg m s \<Longrightarrow> sound cfg m (upward cfg m s)"
proof -
  have rnd: "sound cfg m t"
    if "UpwardInterprocMode cfg" "sound cfg m s" "upward_round cfg m n usc s = (usc', t)" for n usc s usc' t
    using that unfolding upward_round_def Let_def split_beta
    by (auto simp del: append.simps intro!: sound_prims sound_upward_scan sound_5b sound_5a)
  have loop: "sound cfg m (upward_loop cfg m n usc s)" if u: "UpwardInterprocMode cfg" and s: "sound cfg m s" for n usc s
  proof -
    obtain k usc0 s0 usc' where "sound cfg m s0"
        "upward_round cfg m k usc0 s0 = (usc', upward_loop cfg m n usc s)"
      using upward_loop_rule[where P = "\<lambda>_. sound cfg m" and usc = usc and s = s and cfg = cfg
          and m = m and k = n, OF s] rnd[OF u] by blast
    then show ?thesis by (rule rnd[OF u])
  qed
  show "sound cfg m s \<Longrightarrow> ?thesis"
    unfolding upward_def by (auto intro!: sound_prims loop)
qed

subsection \<open>Staying in one function\<close>

text \<open>
  With both interprocedural modes off, only the rules inside a function are left, so taint stays
  in any function that its uses and the loads of what it stores to do not leave.
\<close>

definition stays_in :: "llmodule \<Rightarrow> addr \<Rightarrow> fact \<Rightarrow> bool" where
  "stays_in m F f = (case f of
     Value V \<Rightarrow> func_of_inst m V = F
   | Pointer P \<Rightarrow> \<exists>S v p. func_of_inst m S = F \<and> as_store m S = Some (v, p) \<and> local_store m p \<and> P = strip m p
   | Returns G \<Rightarrow> G = F
   | Param G i \<Rightarrow> G = F)"

lemma flows_stay:
  assumes "flows cfg m f" "\<not> InterprocMode cfg" "\<not> UpwardInterprocMode cfg"
    and src: "\<And>I CI. source cfg m I CI \<Longrightarrow> func_of_inst m I = F"
    and uses: "\<And>V U. func_of_inst m V = F \<Longrightarrow> U \<in> set (users_of m V) \<Longrightarrow> is_inst m U \<Longrightarrow> func_of_inst m U = F"
    and loads: "\<And>S v p I. func_of_inst m S = F \<Longrightarrow> as_store m S = Some (v, p) \<Longrightarrow> local_store m p \<Longrightarrow>
      I \<in> set (all_insts m) \<Longrightarrow> reads_pointer m I (strip m p) \<Longrightarrow> func_of_inst m I = F"
  shows "stays_in m F f"
  using assms(1)
proof (induction rule: flows.induct)
  case (src_store I CI v p)
  then show ?case using src[of I CI] by (auto simp: stays_in_def)
next
  case (store V U p)
  have "is_inst m U" using store(3) by (auto simp: as_op_iff is_inst_def iop_of_def split: option.splits)
  with store assms(3) uses[of V U] show ?case by (auto simp: stays_in_def)
next
  case (store_param V U p)
  have "is_inst m U" using store_param(3) by (auto simp: as_op_iff is_inst_def iop_of_def split: option.splits)
  with store_param uses[of V U] show ?case by (auto simp: stays_in_def)
next
  case (ret V U)
  have "is_inst m U" using ret(3) by (auto simp: as_op_iff is_inst_def iop_of_def split: option.splits)
  with ret uses[of V U] show ?case by (auto simp: stays_in_def)
next
  case (load P I)
  then show ?case using loads by (auto simp: stays_in_def)
qed (use assms(2,3) src uses in \<open>auto simp: stays_in_def\<close>)

end
