(* ===== verification/Report.thy ===== *)
theory Report
  imports Upward_Loop "HOL-Library.List_Lexorder" "HOL-Library.Char_ord"
begin

text \<open>
  The end of \<open>run\<close>: the largest level of a tainted value, the values that have it, the part
  of each function they span, and the counts and span lines printed for the scripts.

  The counters are \<open>unsigned\<close> in the source and 32-bit words here. The loops over
  \<open>ValueLevel\<close> and over the sets of functions run in hash order, the order of the lists here;
  whatever is printed from them is sorted by function name first.
\<close>

subsection \<open>The largest level\<close>

definition INT_MIN :: int where
  "INT_MIN = - 2147483648"

definition max_level :: "tstate \<Rightarrow> int" where
  "max_level s = fold (\<lambda>(V, l) maxLevel.
       if \<not> ds_count (TaintedValues s) V then maxLevel else if l > maxLevel then l else maxLevel)
     (ValueLevel s) INT_MIN"

record max_values =
  MaxLevelInstructions :: "addr list"
  MaxLevelArguments :: "addr list"
  MaxLevelCountPerFunction :: "(addr, u32) dmap"

definition count_function :: "addr \<Rightarrow> (addr, u32) dmap \<Rightarrow> (addr, u32) dmap" where
  "count_function F d = (if F \<noteq> nullptr then dm_set F (dm_get 0 d F + 1) d else d)"

definition collect_value :: "llmodule \<Rightarrow> tstate \<Rightarrow> int \<Rightarrow> addr \<times> int \<Rightarrow> max_values \<Rightarrow> max_values" where
  "collect_value m s maxLevel Entry r =
     (case Entry of (V, l) \<Rightarrow>
        if \<not> ds_count (TaintedValues s) V then r
        else if l = maxLevel then
          (case kind_of m V of
             VInstruction i \<Rightarrow>
               r\<lparr>MaxLevelInstructions := MaxLevelInstructions r @ [V],
                 MaxLevelCountPerFunction := count_function (ifunc i) (MaxLevelCountPerFunction r)\<rparr>
           | VArgument F n \<Rightarrow>
               r\<lparr>MaxLevelArguments := MaxLevelArguments r @ [V],
                 MaxLevelCountPerFunction := count_function F (MaxLevelCountPerFunction r)\<rparr>
           | _ \<Rightarrow> r)
        else r)"

definition collect_max :: "llmodule \<Rightarrow> tstate \<Rightarrow> int \<Rightarrow> max_values" where
  "collect_max m s maxLevel = fold (collect_value m s maxLevel) (ValueLevel s)
     \<lparr>MaxLevelInstructions = [], MaxLevelArguments = [], MaxLevelCountPerFunction = []\<rparr>"

subsection \<open>Where they stand\<close>

definition mark_range :: "addr \<Rightarrow> addr \<Rightarrow> (addr, addr \<times> addr) dmap \<Rightarrow> (addr, addr \<times> addr) dmap" where
  "mark_range F I d =
     (if \<not> dm_count d F then dm_set F (I, I) d
      else dm_set F (fst (dm_get (nullptr, nullptr) d F), I) d)"

definition defined_functions :: "llmodule \<Rightarrow> func list" where
  "defined_functions m = filter (\<lambda>f. \<not> fdecl f) (funcs m)"

definition earliest_latest :: "llmodule \<Rightarrow> addr list \<Rightarrow> (addr, addr \<times> addr) dmap" where
  "earliest_latest m MaxInsts =
     fold (\<lambda>f. fold (\<lambda>I d. if I \<in> set MaxInsts then mark_range (faddr f) I d else d) (func_insts f))
       (defined_functions m) []"

definition visited_functions :: "llmodule \<Rightarrow> tstate \<Rightarrow> addr dset" where
  "visited_functions m s = fold (\<lambda>(V, l) AllVisitedFunctions.
       if \<not> ds_count (TaintedValues s) V then AllVisitedFunctions
       else let F = func_of_value m V
            in if F \<noteq> nullptr then ds_insert F AllVisitedFunctions else AllVisitedFunctions)
     (ValueLevel s) []"

definition at_max_level :: "tstate \<Rightarrow> int \<Rightarrow> addr \<Rightarrow> bool" where
  "at_max_level s maxLevel I = (ds_count (TaintedValues s) I \<and> dm_count (ValueLevel s) I
     \<and> dm_get 0 (ValueLevel s) I = maxLevel)"

definition first_last :: "(addr \<Rightarrow> bool) \<Rightarrow> addr list \<Rightarrow> addr \<times> addr" where
  "first_last P is = fold (\<lambda>I (firstI, lastI).
       if P I then (if firstI = nullptr then I else firstI, I) else (firstI, lastI))
     is (nullptr, nullptr)"

definition function_range :: "tstate \<Rightarrow> int \<Rightarrow> (addr, u32) dmap \<Rightarrow> addr dset \<Rightarrow> func
    \<Rightarrow> (addr, addr \<times> addr) dmap \<Rightarrow> (addr, addr \<times> addr) dmap" where
  "function_range s maxLevel counts AllVisited f d =
     (if ds_count AllVisited (faddr f) \<and> dm_count counts (faddr f) then
        (case first_last (at_max_level s maxLevel) (func_insts f) of
           (firstI, lastI) \<Rightarrow>
             if firstI \<noteq> nullptr \<and> lastI \<noteq> nullptr then dm_set (faddr f) (firstI, lastI) d else d)
      else d)"

definition function_ranges :: "llmodule \<Rightarrow> tstate \<Rightarrow> int \<Rightarrow> (addr, u32) dmap \<Rightarrow> addr dset
    \<Rightarrow> (addr, addr \<times> addr) dmap" where
  "function_ranges m s maxLevel counts AllVisited =
     fold (function_range s maxLevel counts AllVisited) (defined_functions m) []"

subsection \<open>Instruction counts\<close>

text \<open>The walk from the first to the last instruction; it leaves both loops at the last.\<close>

fun count_span :: "addr \<Rightarrow> addr \<Rightarrow> bool \<Rightarrow> u32 \<Rightarrow> addr list \<Rightarrow> u32" where
  "count_span firstI lastI inRange n [] = n"
| "count_span firstI lastI inRange n (I # is) =
     (let inRange' = (if I = firstI then True else inRange);
          n' = (if inRange' then n + 1 else n)
      in if I = lastI then n' else count_span firstI lastI inRange' n' is)"

definition count_all :: "u32 \<Rightarrow> func \<Rightarrow> u32" where
  "count_all n f = fold (\<lambda>I n. n + 1) (func_insts f) n"

text \<open>The two counters (max-level functions, other visited functions).\<close>

definition count_range :: "addr dset \<Rightarrow> (addr, addr \<times> addr) dmap \<Rightarrow> func \<Rightarrow> u32 \<times> u32 \<Rightarrow> u32 \<times> u32" where
  "count_range AllVisited ranges f c =
     (case c of (maxCount, otherCount) \<Rightarrow>
        if \<not> ds_count AllVisited (faddr f) then (maxCount, otherCount)
        else if dm_count ranges (faddr f) then
          (case dm_get (nullptr, nullptr) ranges (faddr f) of
             (firstI, lastI) \<Rightarrow> (count_span firstI lastI False maxCount (func_insts f), otherCount))
        else (maxCount, count_all otherCount f))"

definition count_instructions :: "llmodule \<Rightarrow> addr dset \<Rightarrow> (addr, addr \<times> addr) dmap \<Rightarrow> u32 \<times> u32" where
  "count_instructions m AllVisited ranges =
     fold (count_range AllVisited ranges) (defined_functions m) (0, 0)"

definition count_whole :: "addr dset \<Rightarrow> (addr, u32) dmap \<Rightarrow> func \<Rightarrow> u32 \<times> u32 \<Rightarrow> u32 \<times> u32" where
  "count_whole AllVisited counts f c =
     (case c of (maxCount, otherCount) \<Rightarrow>
        if \<not> ds_count AllVisited (faddr f) then (maxCount, otherCount)
        else if dm_count counts (faddr f) then (count_all maxCount f, otherCount)
        else (maxCount, count_all otherCount f))"

definition count_instructions_arguments :: "llmodule \<Rightarrow> addr dset \<Rightarrow> (addr, u32) dmap \<Rightarrow> u32 \<times> u32" where
  "count_instructions_arguments m AllVisited counts =
     fold (count_whole AllVisited counts) (defined_functions m) (0, 0)"

subsection \<open>Span coordinates\<close>

record span =
  startBBIdx :: u32
  startInstIdx :: u32
  endBBIdx :: u32
  endInstIdx :: u32

fun locate_block :: "addr \<Rightarrow> addr \<Rightarrow> u32 \<Rightarrow> u32 \<Rightarrow> addr list \<Rightarrow> span \<Rightarrow> span" where
  "locate_block firstI lastI bb i [] sp = sp"
| "locate_block firstI lastI bb i (I # is) sp =
     (let sp1 = (if I = firstI then sp\<lparr>startBBIdx := bb, startInstIdx := i\<rparr> else sp);
          sp2 = (if I = lastI then sp1\<lparr>endBBIdx := bb, endInstIdx := i\<rparr> else sp1)
      in locate_block firstI lastI bb (i + 1) is sp2)"

fun locate_blocks :: "addr \<Rightarrow> addr \<Rightarrow> u32 \<Rightarrow> block list \<Rightarrow> span \<Rightarrow> span" where
  "locate_blocks firstI lastI bb [] sp = sp"
| "locate_blocks firstI lastI bb (B # Bs) sp =
     locate_blocks firstI lastI (bb + 1) Bs (locate_block firstI lastI bb 0 (binsts B) sp)"

definition span_of :: "llmodule \<Rightarrow> addr \<Rightarrow> addr \<times> addr \<Rightarrow> span" where
  "span_of m F r =
     (case r of (firstI, lastI) \<Rightarrow>
        locate_blocks firstI lastI 0 (case func_of m F of Some f \<Rightarrow> fblocks f | None \<Rightarrow> [])
          \<lparr>startBBIdx = 0, startInstIdx = 0, endBBIdx = 0, endInstIdx = 0\<rparr>)"

subsection \<open>What is printed\<close>

definition show_u32 :: "u32 \<Rightarrow> string" where
  "show_u32 w = show_nat (unat w)"

definition by_name :: "llmodule \<Rightarrow> (addr \<times> 'a) list \<Rightarrow> (addr \<times> 'a) list" where
  "by_name m d = sort_key (\<lambda>e. fun_name m (fst e)) d"

definition function_breakdown :: "llmodule \<Rightarrow> (addr, u32) dmap \<Rightarrow> string list" where
  "function_breakdown m counts =
     (if 1 < length counts then
        [[], ''Per-function breakdown:'']
        @ map (\<lambda>(F, c). ''  '' @ fun_name m F @ '': '' @ show_u32 c @ '' value(s)'') (by_name m counts)
      else [])"

definition instruction_text :: "pass_params \<Rightarrow> llmodule \<Rightarrow> tstate \<Rightarrow> addr \<Rightarrow> string" where
  "instruction_text cfg m s I = getValueName m I @ getDebugLoc cfg m I @ func_level m s I"

definition earliest_latest_lines :: "pass_params \<Rightarrow> llmodule \<Rightarrow> tstate \<Rightarrow> int
    \<Rightarrow> (addr, addr \<times> addr) dmap \<Rightarrow> string list" where
  "earliest_latest_lines cfg m s maxLevel d =
     (if d = [] then [] else
        [[], ''Earliest and latest instructions with L='' @ show_int maxLevel @ '' (per function):'']
        @ concat (map (\<lambda>(F, earliest, latest).
            [[], fun_name m F @ '':'']
            @ (if earliest \<noteq> nullptr then [''  Earliest: '' @ instruction_text cfg m s earliest] else [])
            @ (if latest \<noteq> nullptr \<and> latest \<noteq> earliest
               then [''  Latest: '' @ instruction_text cfg m s latest]
               else if latest = earliest
               then [''  (Earliest and latest are the same instruction)''] else []))
          (by_name m d)))"

definition count_lines :: "string \<Rightarrow> u32 \<Rightarrow> u32 \<Rightarrow> nat \<Rightarrow> nat \<Rightarrow> string list" where
  "count_lines what maxCount otherCount maxFunctions otherFunctions =
     [[], ''=== Instruction Count Statistics ==='',
      ''Max-level functions ('' @ what @ ''): '' @ show_u32 maxCount @ '' instructions'',
      ''Other visited functions (total): '' @ show_u32 otherCount @ '' instructions'',
      ''Total: '' @ show_u32 (maxCount + otherCount) @ '' instructions'',
      ''Number of max-level functions: '' @ show_nat maxFunctions,
      ''Number of other visited functions: '' @ show_nat otherFunctions]"

definition span_line :: "llmodule \<Rightarrow> addr \<times> addr \<times> addr \<Rightarrow> string" where
  "span_line m e =
     (case e of (F, r) \<Rightarrow>
        let sp = span_of m F r
        in fun_name m F @ '', '' @ show_u32 (startBBIdx sp) @ '', '' @ show_u32 (startInstIdx sp)
           @ '', '' @ show_u32 (endBBIdx sp) @ '', '' @ show_u32 (endInstIdx sp))"

definition full_span_lines :: "llmodule \<Rightarrow> addr list \<Rightarrow> string list" where
  "full_span_lines m fs = map (\<lambda>F. fun_name m F @ '', full span'') (sort_key (fun_name m) fs)"

definition level_header :: "int \<Rightarrow> string list" where
  "level_header maxLevel = [[], ''=== Maximum Level Statistics ==='', ''Largest L value: '' @ show_int maxLevel]"

definition count_line :: "string \<Rightarrow> int \<Rightarrow> nat \<Rightarrow> string" where
  "count_line what maxLevel n = what @ '' with L='' @ show_int maxLevel @ '': '' @ show_nat n"

text \<open>At least one instruction has the largest level.\<close>

definition report_instructions :: "pass_params \<Rightarrow> llmodule \<Rightarrow> tstate \<Rightarrow> int \<Rightarrow> max_values \<Rightarrow> string list" where
  "report_instructions cfg m s maxLevel r =
     (let counts = MaxLevelCountPerFunction r;
          nInsts = length (MaxLevelInstructions r);
          nArgs = length (MaxLevelArguments r);
          AllVisited = visited_functions m s;
          ranges = function_ranges m s maxLevel counts AllVisited
      in level_header maxLevel
         @ [count_line ''Number of instructions'' maxLevel nInsts]
         @ (if nArgs \<noteq> 0
            then [count_line ''Number of arguments'' maxLevel nArgs,
                  count_line ''Total values'' maxLevel (nInsts + nArgs)] else [])
         @ function_breakdown m counts
         @ earliest_latest_lines cfg m s maxLevel (earliest_latest m (MaxLevelInstructions r))
         @ (case count_instructions m AllVisited ranges of (maxCount, otherCount) \<Rightarrow>
              count_lines ''data flow span'' maxCount otherCount (length ranges)
                (length AllVisited - length ranges))
         @ [[], ''=== Data Flow Span Details ===''] @ map (span_line m) (by_name m ranges)
         @ full_span_lines m (filter (\<lambda>F. \<not> dm_count ranges F) AllVisited))"

text \<open>Only arguments have it.\<close>

definition report_arguments :: "llmodule \<Rightarrow> tstate \<Rightarrow> int \<Rightarrow> max_values \<Rightarrow> string list" where
  "report_arguments m s maxLevel r =
     (let counts = MaxLevelCountPerFunction r;
          AllVisited = visited_functions m s
      in level_header maxLevel
         @ [count_line ''Number of arguments'' maxLevel (length (MaxLevelArguments r))]
         @ function_breakdown m counts
         @ (case count_instructions_arguments m AllVisited counts of (maxCount, otherCount) \<Rightarrow>
              count_lines ''total'' maxCount otherCount (length counts)
                (length AllVisited - length counts))
         @ [[], ''=== Data Flow Span Details ===''] @ full_span_lines m (map fst counts)
         @ full_span_lines m (filter (\<lambda>F. \<not> dm_count counts F) AllVisited))"

definition report_lines :: "pass_params \<Rightarrow> llmodule \<Rightarrow> tstate \<Rightarrow> string list" where
  "report_lines cfg m s =
     (let maxLevel = max_level s
      in (if INT_MIN < maxLevel then
            let r = collect_max m s maxLevel
            in if MaxLevelInstructions r \<noteq> [] then report_instructions cfg m s maxLevel r
               else if MaxLevelArguments r \<noteq> [] then report_arguments m s maxLevel r
               else []
          else [])
         @ [[], ''=== Taint Analysis Complete ===''])"

definition report :: "pass_params \<Rightarrow> llmodule \<Rightarrow> tstate \<Rightarrow> tstate" where
  "report cfg m s = fold (emit REPORT nullptr) (report_lines cfg m s) s"

lemma report_fields [simp]:
  "TaintedValues (report cfg m s) = TaintedValues s"
  "TaintedPointers (report cfg m s) = TaintedPointers s"
  "Worklist (report cfg m s) = Worklist s"
  "ValueLevel (report cfg m s) = ValueLevel s"
  unfolding report_def by (rule fold_keeps; simp)+

lemma report_appends:
  "Log (report cfg m s) = Log s @ map (Ev REPORT nullptr) (report_lines cfg m s)"
proof -
  have "Log (fold (emit REPORT nullptr) ls s) = Log s @ map (Ev REPORT nullptr) ls" for ls
    by (induction ls arbitrary: s) (simp_all add: emit_def)
  then show ?thesis by (simp add: report_def)
qed

lemma report_last: "last (Log (report cfg m s)) = Ev REPORT nullptr ''=== Taint Analysis Complete ===''"
proof -
  obtain xs where "report_lines cfg m s = xs @ [[], ''=== Taint Analysis Complete ==='']"
    unfolding report_lines_def Let_def by blast
  then show ?thesis by (simp add: report_appends)
qed

end
