(* ===== verification/Params.thy ===== *)
theory Params
  imports Printing
begin

text \<open>
  The registration callback: the name of the pass in a pipeline, with its parameters between
  angle brackets and separated by semicolons, becomes the configuration of the pass.

  The string operations are LLVM's \<open>StringRef\<close>. They are a parameter of the model: the
  record \<open>stringref\<close>. What the code relies on is \<open>stringref_ok\<close>, their documentation.
\<close>

record stringref =
  consume_front :: "string \<Rightarrow> string \<Rightarrow> string option"  \<comment> \<open>prefix, text: what follows the prefix\<close>
  consume_back :: "string \<Rightarrow> string \<Rightarrow> string option"   \<comment> \<open>suffix, text: what precedes the suffix\<close>
  split_at :: "char \<Rightarrow> string \<Rightarrow> string list"            \<comment> \<open>\<open>split(_, c, -1, true)\<close>\<close>
  as_int64 :: "string \<Rightarrow> int option"                     \<comment> \<open>\<open>getAsInteger(10, int64_t)\<close>; None: error\<close>
  as_unsigned :: "string \<Rightarrow> u32 option"                  \<comment> \<open>\<open>getAsInteger(10, unsigned)\<close>; None: error\<close>

definition truthy :: "string \<Rightarrow> bool" where
  "truthy s = (s = ''true'' \<or> s = ''1'' \<or> s = ''TRUE'' \<or> s = ''yes'')"

text \<open>Parameter \<open>i\<close> when it is there and not empty.\<close>

definition param :: "string list \<Rightarrow> nat \<Rightarrow> string option" where
  "param Params i = (if i < length Params \<and> Params ! i \<noteq> [] then Some (Params ! i) else None)"

definition flag_param :: "string list \<Rightarrow> nat \<Rightarrow> bool" where
  "flag_param Params i = (case param Params i of Some s \<Rightarrow> truthy s | None \<Rightarrow> False)"

definition constant_param :: "stringref \<Rightarrow> string list \<Rightarrow> int \<times> string list" where
  "constant_param lib Params =
     (case param Params 2 of
        None \<Rightarrow> (3600, [])
      | Some s \<Rightarrow> (case as_int64 lib s of
            Some c \<Rightarrow> (c, [])
          | None \<Rightarrow> (3600, [''Warning: Invalid constant value, using default 3600''])))"

definition occurrence_param :: "stringref \<Rightarrow> string list \<Rightarrow> u32 \<times> string list" where
  "occurrence_param lib Params =
     (case param Params 7 of
        None \<Rightarrow> (1, [])
      | Some s \<Rightarrow> (case as_unsigned lib s of
            Some n \<Rightarrow> (n, [])
          | None \<Rightarrow> (1, [''Warning: Invalid occurrence value, using default 1 (first)''])))"

definition parse_params :: "stringref \<Rightarrow> string list \<Rightarrow> pass_params \<times> string list" where
  "parse_params lib Params =
     (case constant_param lib Params of (Constant, w1) \<Rightarrow>
      case occurrence_param lib Params of (Occurrence, w2) \<Rightarrow>
        (\<lparr>FunctionName = (case param Params 0 of Some s \<Rightarrow> s | None \<Rightarrow> ''gss_fill_context''),
          TargetOpcode = (case param Params 1 of Some s \<Rightarrow> s | None \<Rightarrow> ''''),
          ConstantToTrack = Constant,
          Verbose = flag_param Params 3,
          InterprocMode = flag_param Params 4,
          IndirectCallMode = flag_param Params 5,
          UpwardInterprocMode = flag_param Params 6,
          OccurrenceIndex = Occurrence,
          ApproxDebugInfo = flag_param Params 8\<rparr>, w1 @ w2))"

text \<open>
  The callback: None when the name is not this pass; otherwise the configuration it adds and
  the warnings it prints. Text that is not between angle brackets leaves the defaults.
\<close>

definition parse_pipeline :: "stringref \<Rightarrow> string \<Rightarrow> (pass_params \<times> string list) option" where
  "parse_pipeline lib Name =
     (case consume_front lib ''taint-tracker'' Name of
        None \<Rightarrow> None
      | Some Name1 \<Rightarrow>
          (case consume_front lib ''<'' Name1 of
             None \<Rightarrow> Some (default_params, [])
           | Some Name2 \<Rightarrow>
               (case consume_back lib ''>'' Name2 of
                  None \<Rightarrow> Some (default_params, [])
                | Some Name3 \<Rightarrow> Some (parse_params lib (split_at lib CHR '';'' Name3)))))"

subsection \<open>What StringRef promises\<close>

text \<open>
  The text of a number: decimal digits, after a minus sign when it is signed. What has another
  shape is an error of \<open>getAsInteger\<close>, as is a number out of the range of the type.
\<close>

definition all_digits :: "string \<Rightarrow> bool" where
  "all_digits s = (s \<noteq> [] \<and> set s \<subseteq> digit ` {..<10})"

definition bad_int64 :: "string \<Rightarrow> bool" where
  "bad_int64 s = ((\<not> all_digits s \<and> \<not> (\<exists>t. s = CHR ''-'' # t \<and> all_digits t))
     \<or> (\<exists>i. s = show_int i \<and> (i < - (2 ^ 63) \<or> 2 ^ 63 \<le> i)))"

definition bad_unsigned :: "string \<Rightarrow> bool" where
  "bad_unsigned s = (\<not> all_digits s \<or> (\<exists>n \<ge> 2 ^ 32. s = show_nat n))"

definition stringref_ok :: "stringref \<Rightarrow> bool" where
  "stringref_ok lib =
     ((\<forall>p r. consume_front lib p (p @ r) = Some r)
      \<and> (\<forall>p s. \<not> starts_with p s \<longrightarrow> consume_front lib p s = None)
      \<and> (\<forall>p r. consume_back lib p (r @ p) = Some r)
      \<and> (\<forall>p s. (\<forall>r. s \<noteq> r @ p) \<longrightarrow> consume_back lib p s = None)
      \<and> (\<forall>c ps. ps \<noteq> [] \<longrightarrow> (\<forall>p \<in> set ps. c \<notin> set p) \<longrightarrow> split_at lib c (join_with [c] ps) = ps)
      \<and> (\<forall>i. - (2 ^ 63) \<le> i \<longrightarrow> i < 2 ^ 63 \<longrightarrow> as_int64 lib (show_int i) = Some i)
      \<and> (\<forall>s. bad_int64 s \<longrightarrow> as_int64 lib s = None)
      \<and> (\<forall>n. n < 2 ^ 32 \<longrightarrow> as_unsigned lib (show_nat n) = Some (of_nat n))
      \<and> (\<forall>s. bad_unsigned s \<longrightarrow> as_unsigned lib s = None))"

lemma stringref_okD:
  assumes "stringref_ok lib"
  shows "consume_front lib p (p @ r) = Some r"
    and "\<not> starts_with p s \<Longrightarrow> consume_front lib p s = None"
    and "consume_back lib p (r @ p) = Some r"
    and "\<forall>r. s \<noteq> r @ p \<Longrightarrow> consume_back lib p s = None"
    and "ps \<noteq> [] \<Longrightarrow> \<forall>p \<in> set ps. c \<notin> set p \<Longrightarrow> split_at lib c (join_with [c] ps) = ps"
    and "- (2 ^ 63) \<le> i \<Longrightarrow> i < 2 ^ 63 \<Longrightarrow> as_int64 lib (show_int i) = Some i"
    and "bad_int64 s \<Longrightarrow> as_int64 lib s = None"
    and "n < 2 ^ 32 \<Longrightarrow> as_unsigned lib (show_nat n) = Some (of_nat n)"
    and "bad_unsigned s \<Longrightarrow> as_unsigned lib s = None"
  using assms unfolding stringref_ok_def by blast+

text \<open>The pass name the scripts build.\<close>

definition show_flag :: "bool \<Rightarrow> string" where
  "show_flag b = (if b then ''true'' else ''false'')"

definition pipeline_fields :: "pass_params \<Rightarrow> string list" where
  "pipeline_fields cfg =
     [FunctionName cfg, TargetOpcode cfg, show_int (ConstantToTrack cfg), show_flag (Verbose cfg),
      show_flag (InterprocMode cfg), show_flag (IndirectCallMode cfg),
      show_flag (UpwardInterprocMode cfg), show_nat (unat (OccurrenceIndex cfg)),
      show_flag (ApproxDebugInfo cfg)]"

definition pipeline_text :: "string list \<Rightarrow> string" where
  "pipeline_text ps = ''taint-tracker'' @ ''<'' @ join_with '';'' ps @ ''>''"

definition pipeline_name :: "pass_params \<Rightarrow> string" where
  "pipeline_name cfg = pipeline_text (pipeline_fields cfg)"

text \<open>A configuration that can be written: a function name, no semicolons, a constant of 64 bits.\<close>

definition writable :: "pass_params \<Rightarrow> bool" where
  "writable cfg = (FunctionName cfg \<noteq> [] \<and> CHR '';'' \<notin> set (FunctionName cfg)
     \<and> CHR '';'' \<notin> set (TargetOpcode cfg) \<and> - (2 ^ 63) \<le> ConstantToTrack cfg \<and> ConstantToTrack cfg < 2 ^ 63)"

text \<open>The fields when some are left empty (\<open>given\<close> is false) or left off at the end.\<close>

definition given_fields :: "bool list \<Rightarrow> pass_params \<Rightarrow> string list" where
  "given_fields given cfg = map2 (\<lambda>g f. if g then f else []) given (pipeline_fields cfg)"

definition is_given :: "bool list \<Rightarrow> nat \<Rightarrow> bool" where
  "is_given given i = (i < length given \<and> given ! i)"

lemma show_nat_chars: "set (show_nat n) \<subseteq> digit ` {..<10}"
  by (induction n rule: show_nat.induct) (subst show_nat.simps, auto)

lemma show_nat_nonempty: "show_nat n \<noteq> []"
  by (subst show_nat.simps) simp

lemma of_char_digit: "d < 10 \<Longrightarrow> of_char (digit d) = 48 + d"
  by (simp add: digit_def)

lemma digit_semicolon: "d < 10 \<Longrightarrow> digit d \<noteq> CHR '';''"
  by (frule of_char_digit) (rule notI, simp)

lemma show_nat_semicolon: "CHR '';'' \<notin> set (show_nat n)"
  using show_nat_chars[of n] digit_semicolon by fastforce

lemma show_int_shape: "show_int i \<noteq> []" "CHR '';'' \<notin> set (show_int i)"
  by (auto simp: show_int_def show_nat_nonempty show_nat_semicolon)

lemma show_flag_shape: "show_flag b \<noteq> []" "CHR '';'' \<notin> set (show_flag b)" "truthy (show_flag b) = b"
  by (auto simp: show_flag_def truthy_def)

subsection \<open>An instance\<close>

text \<open>A concrete \<open>StringRef\<close>, for the examples: it keeps the promises.\<close>

definition drop_front :: "string \<Rightarrow> string \<Rightarrow> string option" where
  "drop_front p s = (if starts_with p s then Some (drop (length p) s) else None)"

definition drop_back :: "string \<Rightarrow> string \<Rightarrow> string option" where
  "drop_back p s = map_option rev (drop_front (rev p) (rev s))"

fun split_list :: "char \<Rightarrow> string \<Rightarrow> string list" where
  "split_list c [] = [[]]"
| "split_list c (x # xs) = (if x = c then [] # split_list c xs
     else case split_list c xs of p # ps \<Rightarrow> (x # p) # ps | [] \<Rightarrow> [[x]])"

definition digit_value :: "char \<Rightarrow> nat option" where
  "digit_value c = (let n = of_char c in if 48 \<le> n \<and> n < (58::nat) then Some (n - 48) else None)"

fun read_digits :: "nat \<Rightarrow> string \<Rightarrow> nat option" where
  "read_digits acc [] = Some acc"
| "read_digits acc (c # cs) =
     (case digit_value c of Some d \<Rightarrow> read_digits (10 * acc + d) cs | None \<Rightarrow> None)"

definition read_nat :: "string \<Rightarrow> nat option" where
  "read_nat s = (if s = [] then None else read_digits 0 s)"

definition read_int64 :: "string \<Rightarrow> int option" where
  "read_int64 s =
     (let r = (case s of [] \<Rightarrow> None
               | c # cs \<Rightarrow> if c = CHR ''-'' then map_option (\<lambda>n. - int n) (read_nat cs)
                         else map_option int (read_nat s))
      in case r of Some i \<Rightarrow> if - (2 ^ 63) \<le> i \<and> i < 2 ^ 63 then Some i else None | None \<Rightarrow> None)"

definition read_unsigned :: "string \<Rightarrow> u32 option" where
  "read_unsigned s = (case read_nat s of
      Some n \<Rightarrow> if n < 2 ^ 32 then Some (of_nat n) else None | None \<Rightarrow> None)"

definition list_stringref :: stringref where
  "list_stringref = \<lparr>consume_front = drop_front, consume_back = drop_back, split_at = split_list,
     as_int64 = read_int64, as_unsigned = read_unsigned\<rparr>"

lemma read_digits_app: "read_digits a (s @ t) =
    (case read_digits a s of Some b \<Rightarrow> read_digits b t | None \<Rightarrow> None)"
  by (induction s arbitrary: a) (auto split: option.split)

lemma digit_value_digit: "d < 10 \<Longrightarrow> digit_value (digit d) = Some d"
  using of_char_digit[of d] by (simp add: digit_value_def)

lemma read_digits_show: "read_digits 0 (show_nat n) = Some n"
proof (induction n rule: show_nat.induct)
  case (1 n)
  then show ?case
    by (subst show_nat.simps) (auto simp: read_digits_app digit_value_digit)
qed

lemma read_show_nat: "read_nat (show_nat n) = Some n"
  by (simp add: read_nat_def show_nat_nonempty read_digits_show)

lemma digit_value_Some: "digit_value c = Some d \<Longrightarrow> c \<in> digit ` {..<10}"
proof -
  assume "digit_value c = Some d"
  then have d: "48 \<le> (of_char c :: nat)" "(of_char c :: nat) < 58"
    by (auto simp: digit_value_def Let_def split: if_splits)
  then have "c = digit (of_char c - 48)" by (simp add: digit_def)
  with d show ?thesis by auto
qed

lemma read_digits_Some: "read_digits a s = Some n \<Longrightarrow> set s \<subseteq> digit ` {..<10}"
  by (induction s arbitrary: a) (auto split: option.splits dest: digit_value_Some)

lemma read_nat_Some: "read_nat s = Some n \<Longrightarrow> all_digits s"
  using read_digits_Some[of 0 s n] by (auto simp: read_nat_def all_digits_def split: if_splits)

lemma digits_code: "digit ` {..<10} = {c. 48 \<le> (of_char c :: nat) \<and> (of_char c :: nat) < 58}"
proof (intro set_eqI iffI)
  fix c assume "c \<in> {c. 48 \<le> (of_char c :: nat) \<and> (of_char c :: nat) < 58}"
  then show "c \<in> digit ` {..<10}"
    by (intro digit_value_Some[of c "of_char c - 48"]) (simp add: digit_value_def)
qed (auto simp: of_char_digit)

lemma all_digits_code: "all_digits s = (s \<noteq> [] \<and> (\<forall>c \<in> set s. 48 \<le> (of_char c :: nat) \<and> (of_char c :: nat) < 58))"
  unfolding all_digits_def digits_code by blast

lemma digit_minus: "d < 10 \<Longrightarrow> digit d \<noteq> CHR ''-''"
  by (frule of_char_digit) (rule notI, simp)

lemma show_nat_hd: obtains c cs where "show_nat n = c # cs" "c \<noteq> CHR ''-''"
proof -
  obtain c cs where s: "show_nat n = c # cs"
    using show_nat_nonempty[of n] by (auto simp: neq_Nil_conv)
  then have "c \<in> digit ` {..<10}" using show_nat_chars[of n] by auto
  then have "c \<noteq> CHR ''-''" using digit_minus by auto
  with s show ?thesis by (rule that)
qed

lemma read_show_int:
  "read_int64 (show_int i) = (if - (2 ^ 63) \<le> i \<and> i < 2 ^ 63 then Some i else None)"
proof (cases "i < 0")
  case True
  then show ?thesis by (simp add: read_int64_def show_int_def read_show_nat)
next
  case False
  obtain c cs where "show_nat (nat i) = c # cs" "c \<noteq> CHR ''-''" by (rule show_nat_hd)
  with False show ?thesis
    using read_show_nat[of "nat i"] by (simp add: read_int64_def show_int_def)
qed

lemma read_bad: "bad_int64 s \<Longrightarrow> read_int64 s = None" "bad_unsigned s \<Longrightarrow> read_unsigned s = None"
proof -
  have "all_digits s \<or> (\<exists>t. s = CHR ''-'' # t \<and> all_digits t)" if "read_int64 s = Some i" for i
    using that read_nat_Some
    by (fastforce simp: read_int64_def Let_def split: list.splits if_splits option.splits)
  then have shape: "read_int64 s = None" if "\<not> all_digits s" "\<not> (\<exists>t. s = CHR ''-'' # t \<and> all_digits t)"
    using that by (cases "read_int64 s") blast+
  have range: "read_int64 s = None" if "s = show_int i" "i < - (2 ^ 63) \<or> 2 ^ 63 \<le> i" for i
    using that(2) unfolding that(1) read_show_int by auto
  show "read_int64 s = None" if "bad_int64 s"
    using that unfolding bad_int64_def by (elim disjE exE conjE) (rule shape, assumption+, (erule range, simp)+)
  show "bad_unsigned s \<Longrightarrow> read_unsigned s = None"
    using read_nat_Some[of s]
    by (cases "read_nat s") (auto simp: bad_unsigned_def read_unsigned_def read_show_nat)
qed

lemma split_list_nonempty: "split_list c s \<noteq> []"
  by (induction s) (auto split: list.split)

lemma split_list_one: "c \<notin> set p \<Longrightarrow> split_list c p = [p]"
  by (induction p) auto

lemma split_list_piece: "c \<notin> set p \<Longrightarrow> split_list c (p @ c # s) = p # split_list c s"
  by (induction p) auto

lemma split_join: "ps \<noteq> [] \<Longrightarrow> \<forall>p \<in> set ps. c \<notin> set p \<Longrightarrow> split_list c (join_with [c] ps) = ps"
  by (induction "[c]" ps rule: join_with.induct) (auto simp: split_list_one split_list_piece)

lemma drop_back_rev: "drop_back p s = Some r \<longleftrightarrow> s = r @ p"
proof
  assume "drop_back p s = Some r"
  then have "take (length p) (rev s) = rev p" "rev r = drop (length p) (rev s)"
    by (auto simp: drop_back_def drop_front_def starts_with_def split: if_splits)
  then have "rev s = rev p @ rev r" by (metis append_take_drop_id)
  then have "rev (rev s) = rev (rev p @ rev r)" by simp
  then show "s = r @ p" by simp
qed (simp add: drop_back_def drop_front_def starts_with_def)

lemma drop_back_none: "\<forall>r. s \<noteq> r @ p \<Longrightarrow> drop_back p s = None"
  by (cases "drop_back p s") (simp_all add: drop_back_rev)

lemma list_stringref_ok: "stringref_ok list_stringref"
  unfolding stringref_ok_def list_stringref_def
  by (auto simp: drop_front_def drop_back_rev starts_with_def read_show_int split_join read_bad)
    (simp_all add: drop_back_none read_unsigned_def read_show_nat)

subsection \<open>Reading the fields\<close>

text \<open>The text between the brackets is cut into its fields.\<close>

lemma parse_fields:
  assumes "stringref_ok lib" "ps \<noteq> []" "\<forall>p \<in> set ps. CHR '';'' \<notin> set p"
  shows "parse_pipeline lib (pipeline_text ps) = Some (parse_params lib ps)"
  unfolding parse_pipeline_def pipeline_text_def stringref_okD(1,3)[OF assms(1)] option.case
  by (simp add: stringref_okD(5)[OF assms])

lemma pipeline_fields_semicolon: "writable cfg \<Longrightarrow> p \<in> set (pipeline_fields cfg) \<Longrightarrow> CHR '';'' \<notin> set p"
  by (auto simp: writable_def pipeline_fields_def show_int_shape show_flag_shape show_nat_semicolon)

text \<open>What the fields of a configuration are read as, given or not.\<close>

lemma param_given:
  assumes "length given \<le> 9"
  shows "param (given_fields given cfg) i =
     (if is_given given i \<and> pipeline_fields cfg ! i \<noteq> [] then Some (pipeline_fields cfg ! i) else None)"
proof -
  have "length (pipeline_fields cfg) = 9" by (simp add: pipeline_fields_def)
  then show ?thesis using assms by (auto simp: param_def given_fields_def is_given_def split: if_splits)
qed

lemma pipeline_fields_nth:
  "pipeline_fields cfg ! 0 = FunctionName cfg" "pipeline_fields cfg ! 1 = TargetOpcode cfg"
  "pipeline_fields cfg ! 2 = show_int (ConstantToTrack cfg)" "pipeline_fields cfg ! 3 = show_flag (Verbose cfg)"
  "pipeline_fields cfg ! 4 = show_flag (InterprocMode cfg)"
  "pipeline_fields cfg ! 5 = show_flag (IndirectCallMode cfg)"
  "pipeline_fields cfg ! 6 = show_flag (UpwardInterprocMode cfg)"
  "pipeline_fields cfg ! 7 = show_nat (unat (OccurrenceIndex cfg))"
  "pipeline_fields cfg ! 8 = show_flag (ApproxDebugInfo cfg)"
  by (simp_all add: pipeline_fields_def)

lemma read_numbers:
  assumes "stringref_ok lib" "writable cfg"
  shows "as_int64 lib (show_int (ConstantToTrack cfg)) = Some (ConstantToTrack cfg)"
    and "as_unsigned lib (show_nat (unat (OccurrenceIndex cfg))) = Some (OccurrenceIndex cfg)"
proof -
  show "as_int64 lib (show_int (ConstantToTrack cfg)) = Some (ConstantToTrack cfg)"
    using stringref_okD(6)[OF assms(1)] assms(2) by (simp add: writable_def)
  have "unat (OccurrenceIndex cfg) < 2 ^ 32"
    using unsigned_less[of "OccurrenceIndex cfg"] by simp
  then show "as_unsigned lib (show_nat (unat (OccurrenceIndex cfg))) = Some (OccurrenceIndex cfg)"
    by (simp add: stringref_okD(8)[OF assms(1)])
qed

lemma parse_given:
  assumes ok: "stringref_ok lib" and cfg: "writable cfg" and len: "length given \<le> 9"
  shows "parse_params lib (given_fields given cfg) =
     (\<lparr>FunctionName = (if is_given given 0 then FunctionName cfg else ''gss_fill_context''),
       TargetOpcode = (if is_given given 1 then TargetOpcode cfg else ''''),
       ConstantToTrack = (if is_given given 2 then ConstantToTrack cfg else 3600),
       Verbose = (is_given given 3 \<and> Verbose cfg), InterprocMode = (is_given given 4 \<and> InterprocMode cfg),
       IndirectCallMode = (is_given given 5 \<and> IndirectCallMode cfg),
       UpwardInterprocMode = (is_given given 6 \<and> UpwardInterprocMode cfg),
       OccurrenceIndex = (if is_given given 7 then OccurrenceIndex cfg else 1),
       ApproxDebugInfo = (is_given given 8 \<and> ApproxDebugInfo cfg)\<rparr>, [])"
proof -
  note par = param_given[OF len, of cfg]
  have c: "constant_param lib (given_fields given cfg) =
      (if is_given given 2 then ConstantToTrack cfg else 3600, [])"
    by (simp add: constant_param_def par pipeline_fields_nth show_int_shape read_numbers[OF ok cfg])
  have o: "occurrence_param lib (given_fields given cfg) =
      (if is_given given 7 then OccurrenceIndex cfg else 1, [])"
    by (simp add: occurrence_param_def par pipeline_fields_nth show_nat_nonempty read_numbers[OF ok cfg])
  have f: "flag_param (given_fields given cfg) i = (is_given given i \<and> b)"
    if "pipeline_fields cfg ! i = show_flag b" for i b
    using that by (simp add: flag_param_def par show_flag_shape)
  note flags = f[OF pipeline_fields_nth(4)] f[OF pipeline_fields_nth(5)] f[OF pipeline_fields_nth(6)]
    f[OF pipeline_fields_nth(7)] f[OF pipeline_fields_nth(9)]
  have n: "param (given_fields given cfg) 0 = (if is_given given 0 then Some (FunctionName cfg) else None)"
    using cfg by (simp add: par pipeline_fields_nth(1) writable_def)
  have o1: "param (given_fields given cfg) 1 =
      (if is_given given 1 \<and> TargetOpcode cfg \<noteq> [] then Some (TargetOpcode cfg) else None)"
    unfolding par pipeline_fields_nth ..
  show ?thesis
    unfolding parse_params_def c o prod.case flags n o1 by simp
qed

lemma all_given: "given_fields (replicate 9 True) cfg = pipeline_fields cfg"
  by (simp add: given_fields_def pipeline_fields_def numeral_eq_Suc)

lemma given_semicolon: "writable cfg \<Longrightarrow> p \<in> set (given_fields given cfg) \<Longrightarrow> CHR '';'' \<notin> set p"
  using pipeline_fields_semicolon[of cfg]
  by (auto simp: given_fields_def dest: set_zip_rightD split: if_splits)

text \<open>A field with a number that cannot be read.\<close>

lemma parse_bad_number:
  assumes ok: "stringref_ok lib" and cfg: "writable cfg" and c: "c \<noteq> []"
  shows "bad_int64 c \<Longrightarrow> parse_params lib ((pipeline_fields cfg)[2 := c]) =
      (cfg\<lparr>ConstantToTrack := 3600\<rparr>, [''Warning: Invalid constant value, using default 3600''])"
    and "bad_unsigned c \<Longrightarrow> parse_params lib ((pipeline_fields cfg)[7 := c]) =
      (cfg\<lparr>OccurrenceIndex := 1\<rparr>, [''Warning: Invalid occurrence value, using default 1 (first)''])"
  using cfg c stringref_okD(7,9)[OF ok, of c] read_numbers[OF ok cfg]
  by (simp_all add: parse_params_def constant_param_def occurrence_param_def param_def flag_param_def
      writable_def pipeline_fields_def show_int_shape show_flag_shape show_nat_nonempty split: list.split)

text \<open>No parameters, or no closing bracket.\<close>

lemma parse_bare:
  assumes "stringref_ok lib" "\<forall>body. rest \<noteq> ''<'' @ body @ ''>''"
  shows "parse_pipeline lib (''taint-tracker'' @ rest) = Some (default_params, [])"
proof (cases "starts_with ''<'' rest")
  case True
  then obtain body where rest: "rest = ''<'' @ body"
    unfolding starts_with_def by (metis append_take_drop_id)
  with assms(2) have "consume_back lib ''>'' body = None" by (intro stringref_okD(4)[OF assms(1)]) auto
  then show ?thesis
    unfolding parse_pipeline_def rest stringref_okD(1)[OF assms(1)] option.case by simp
next
  case False
  show ?thesis
    unfolding parse_pipeline_def stringref_okD(1)[OF assms(1)] option.case
      stringref_okD(2)[OF assms(1) False] ..
qed

subsection \<open>Properties\<close>

text \<open>
  C27: The pass name and the configuration. The name built from a configuration parses back to
  that configuration, without warnings, when the function name is not empty, neither name has
  a semicolon, and the constant fits 64 bits.
\<close>

theorem pipeline_roundtrip:
  assumes "stringref_ok lib" "FunctionName cfg \<noteq> []" "CHR '';'' \<notin> set (FunctionName cfg)"
    "CHR '';'' \<notin> set (TargetOpcode cfg)" "- (2 ^ 63) \<le> ConstantToTrack cfg" "ConstantToTrack cfg < 2 ^ 63"
  shows "parse_pipeline lib (pipeline_name cfg) = Some (cfg, [])"
proof -
  have w: "writable cfg" using assms by (simp add: writable_def)
  have "is_given (replicate 9 True) i = (i < 9)" for i
    by (auto simp: is_given_def)
  then have "parse_params lib (pipeline_fields cfg) = (cfg, [])"
    using parse_given[OF assms(1) w, of "replicate 9 True"] by (simp add: all_given)
  then show ?thesis
    using parse_fields[OF assms(1), of "pipeline_fields cfg"] pipeline_fields_semicolon[OF w]
    by (simp add: pipeline_name_def pipeline_fields_def)
qed

lemma pipeline_roundtrip_witness:
  "parse_pipeline list_stringref (pipeline_name (ex_cfg\<lparr>ConstantToTrack := -3\<rparr>)) =
     Some (ex_cfg\<lparr>ConstantToTrack := -3\<rparr>, [])"
  by (rule pipeline_roundtrip[OF list_stringref_ok]) (simp_all add: ex_cfg_def default_params_def)

text \<open>
  C28: Malformed pass names. A name of another pass is not taken. A name that is this pass but
  does not go on with parameters between angle brackets runs it with the default parameters,
  written out here. Fields that are empty or left off at the end take their defaults, and the
  others are read as they are. A constant that is not a decimal number of 64 bits becomes 3600
  and an occurrence that is not one of 32 unsigned bits becomes 1, each with its warning and
  with no effect on the other fields.
\<close>

theorem pipeline_malformed:
  assumes "stringref_ok lib"
  shows "(\<not> starts_with ''taint-tracker'' Name \<longrightarrow> parse_pipeline lib Name = None)
     \<and> ((\<forall>body. rest \<noteq> ''<'' @ body @ ''>'') \<longrightarrow> parse_pipeline lib (''taint-tracker'' @ rest) =
          Some (\<lparr>FunctionName = ''gss_fill_context'', TargetOpcode = '''', ConstantToTrack = 3600,
            Verbose = False, InterprocMode = False, IndirectCallMode = False,
            UpwardInterprocMode = False, OccurrenceIndex = 1, ApproxDebugInfo = False\<rparr>, []))
     \<and> (writable cfg \<longrightarrow> given \<noteq> [] \<longrightarrow> length given \<le> 9 \<longrightarrow>
          parse_pipeline lib (pipeline_text (given_fields given cfg)) =
          Some (\<lparr>FunctionName = (if is_given given 0 then FunctionName cfg else ''gss_fill_context''),
            TargetOpcode = (if is_given given 1 then TargetOpcode cfg else ''''),
            ConstantToTrack = (if is_given given 2 then ConstantToTrack cfg else 3600),
            Verbose = (is_given given 3 \<and> Verbose cfg),
            InterprocMode = (is_given given 4 \<and> InterprocMode cfg),
            IndirectCallMode = (is_given given 5 \<and> IndirectCallMode cfg),
            UpwardInterprocMode = (is_given given 6 \<and> UpwardInterprocMode cfg),
            OccurrenceIndex = (if is_given given 7 then OccurrenceIndex cfg else 1),
            ApproxDebugInfo = (is_given given 8 \<and> ApproxDebugInfo cfg)\<rparr>, []))
     \<and> (writable cfg \<longrightarrow> c \<noteq> [] \<longrightarrow> CHR '';'' \<notin> set c \<longrightarrow> bad_int64 c \<longrightarrow>
          parse_pipeline lib (pipeline_text ((pipeline_fields cfg)[2 := c])) =
          Some (cfg\<lparr>ConstantToTrack := 3600\<rparr>, [''Warning: Invalid constant value, using default 3600'']))
     \<and> (writable cfg \<longrightarrow> c \<noteq> [] \<longrightarrow> CHR '';'' \<notin> set c \<longrightarrow> bad_unsigned c \<longrightarrow>
          parse_pipeline lib (pipeline_text ((pipeline_fields cfg)[7 := c])) =
          Some (cfg\<lparr>OccurrenceIndex := 1\<rparr>, [''Warning: Invalid occurrence value, using default 1 (first)'']))"
proof -
  note ok = stringref_okD[OF assms]
  have other: "\<not> starts_with ''taint-tracker'' Name \<Longrightarrow> parse_pipeline lib Name = None"
    by (simp add: parse_pipeline_def ok(2))
  have given: "parse_pipeline lib (pipeline_text (given_fields given cfg)) =
      Some (parse_params lib (given_fields given cfg))"
    if "writable cfg" "given \<noteq> []" "length given \<le> 9"
    using given_semicolon[OF that(1)] that(2)
    by (intro parse_fields[OF assms]) (auto simp: given_fields_def pipeline_fields_def neq_Nil_conv)
  have one: "parse_pipeline lib (pipeline_text ((pipeline_fields cfg)[i := c])) =
      Some (parse_params lib ((pipeline_fields cfg)[i := c]))"
    if "writable cfg" "CHR '';'' \<notin> set c" for i
  proof (rule parse_fields[OF assms])
    have "pipeline_fields cfg \<noteq> []" by (simp add: pipeline_fields_def)
    then show "(pipeline_fields cfg)[i := c] \<noteq> []" by simp
    show "\<forall>p \<in> set ((pipeline_fields cfg)[i := c]). CHR '';'' \<notin> set p"
      using pipeline_fields_semicolon[OF that(1)] that(2) set_update_subset_insert by fast
  qed
  show ?thesis
    using other parse_bare[OF assms, of rest] given one parse_given[OF assms, of cfg given]
      parse_bad_number[OF assms, of cfg c]
    unfolding default_params_def by (intro conjI impI) simp_all
qed

lemma pipeline_malformed_witness:
  "parse_pipeline list_stringref ''dce'' = None
   \<and> parse_pipeline list_stringref ''taint-tracker<f;add'' =
       Some (\<lparr>FunctionName = ''gss_fill_context'', TargetOpcode = '''', ConstantToTrack = 3600,
         Verbose = False, InterprocMode = False, IndirectCallMode = False,
         UpwardInterprocMode = False, OccurrenceIndex = 1, ApproxDebugInfo = False\<rparr>, [])
   \<and> parse_pipeline list_stringref (pipeline_text ((pipeline_fields ex_cfg)[2 := ''0x24''])) =
       Some (ex_cfg\<lparr>ConstantToTrack := 3600\<rparr>, [''Warning: Invalid constant value, using default 3600''])"
proof -
  have "\<not> starts_with ''taint-tracker'' ''dce''" by code_simp
  moreover have "''<f;add'' \<noteq> ''<'' @ body @ ''>''" for body
    by (cases body rule: rev_cases) (auto simp: Cons_eq_append_conv)
  moreover have "writable ex_cfg" by (simp add: writable_def ex_cfg_def default_params_def)
  moreover have "bad_int64 ''0x24''" by (simp add: bad_int64_def all_digits_code)
  ultimately show ?thesis
    using pipeline_malformed[OF list_stringref_ok, of "''dce''" "''<f;add''" ex_cfg "[True]" "''0x24''"] by simp
qed

end
