(* ===== verification/Analysis.thy ===== *)
theory Analysis
  imports Soundness Report Params
begin

text \<open>
  The composition of the phases in \<open>run\<close>, and what the lemmas on the phases give for it:
  the state at the start of the search holds no taint, the seeds are queued, so phase 2 ends
  closed (\<open>phase2_end\<close>) and phase 5 ends closed upward (\<open>run_upward_end\<close>).
\<close>

definition start :: "pass_params \<Rightarrow> llmodule \<Rightarrow> tstate" where
  "start cfg m = build_targets cfg m (print_config cfg init_state)"

definition phase2 :: "pass_params \<Rightarrow> llmodule \<Rightarrow> tstate" where
  "phase2 cfg m = forward cfg m (seed cfg m (start cfg m))"

definition run :: "pass_params \<Rightarrow> llmodule \<Rightarrow> tstate" where
  "run cfg m = report cfg m (upward cfg m (phase2 cfg m))"

subsection \<open>The start\<close>

lemma print_config_same:
  "no_taint (print_config cfg init_state)"
  "FunctionPointerTargets (print_config cfg s) = FunctionPointerTargets s"
proof -
  have "no_taint (fold (emit CONFIG nullptr) ls init_state)" for ls
    by (rule fold_sound[where I = no_taint])
      (simp_all add: no_taint_def, simp add: init_state_def)
  then show "no_taint (print_config cfg init_state)" by (simp add: print_config_def)
  show "FunctionPointerTargets (print_config cfg s) = FunctionPointerTargets s"
    unfolding print_config_def by (rule fold_keeps) simp
qed

lemma start_no_taint: "no_taint (start cfg m)"
  unfolding start_def by (rule build_targets_no_taint[OF print_config_same(1)])

lemma start_facts: "facts (start cfg m) = {}" "pending cfg m (start cfg m)"
  using start_no_taint[of cfg m] by (auto simp: facts_def no_taint_def pending_def)

lemma store_target_cong:
  "FunctionPointerTargets s = FunctionPointerTargets t \<Longrightarrow>
     FunctionPointerTargets (store_target cfg m I s) = FunctionPointerTargets (store_target cfg m I t)"
  by (simp add: store_target_def add_target_def Let_def split: option.split)

lemma build_targets_cong:
  assumes "FunctionPointerTargets s = FunctionPointerTargets t"
  shows "FunctionPointerTargets (build_targets cfg m s) = FunctionPointerTargets (build_targets cfg m t)"
proof -
  have "FunctionPointerTargets (fold (store_target cfg m) is s) =
      FunctionPointerTargets (fold (store_target cfg m) is t)"
    if "FunctionPointerTargets s = FunctionPointerTargets t" for s t "is"
    using that
  proof (induction "is" arbitrary: s t)
    case (Cons I "is")
    show ?case using Cons.IH[OF store_target_cong[OF Cons.prems]] by simp
  qed simp
  from this[of "emit_if (Verbose cfg) VERBOSE nullptr tx s" "emit_if (Verbose cfg) VERBOSE nullptr tx t" for tx]
  show ?thesis using assms by (simp add: build_targets_def del: append.simps)
qed

lemma start_sound: "sound cfg m (start cfg m)"
  unfolding sound_def start_facts(1)
  by (simp add: start_def build_targets_cong[OF print_config_same(2)])

subsection \<open>The seeds are queued\<close>

lemma pushes_seed_call_arg: "pushes s (seed_call_arg cfg m I CI F ia s)"
  by (auto simp: seed_call_arg_def Let_def simp del: append.simps intro!: push_intros split: prod.split)

interpretation seed_arg_pushes: keeps_preorder pushes "seed_call_arg cfg m I CI F" for cfg m I CI F
  by unfold_locales (auto intro: pushes_seed_call_arg pushes_trans)

lemma pushes_seed_ind_arg: "pushes s (seed_indirect_arg cfg m I CI ia s)"
  by (auto simp: seed_indirect_arg_def simp del: append.simps intro!: push_intros split: prod.split)

interpretation seed_ind_pushes: keeps_preorder pushes "seed_indirect_arg cfg m I CI" for cfg m I CI
  by unfold_locales (auto intro: pushes_seed_ind_arg pushes_trans)

lemma pushes_seed_source: "pushes s (seed_source cfg m I CI s)"
proof -
  have ret: "pushes s x \<Longrightarrow> pushes s (seed_return cfg m I CI x)" for x
    by (auto simp: seed_return_def Let_def simp del: append.simps intro!: push_intros split: option.split)
  have st: "pushes s x \<Longrightarrow> pushes s (seed_store cfg m I x)" for x
    by (auto simp: seed_store_def Let_def simp del: append.simps intro!: push_intros
        split: option.split prod.split)
  have cl: "pushes s x \<Longrightarrow> pushes s (seed_call cfg m I CI x)" for x
    by (auto simp: seed_call_def intro: pushes_trans[OF _ seed_arg_pushes.R_fold]
        pushes_trans[OF _ seed_ind_pushes.R_fold] split: option.split)
  show ?thesis
    unfolding seed_source_def Let_def by (intro cl st ret pushes_prims) (auto intro!: push_intros)
qed

lemma pushes_seed_operand: "pushes (fst x) (fst (seed_operand cfg m I no x))"
  by (cases x; cases no)
    (auto simp: seed_operand.simps Let_def simp del: append.simps
      intro!: push_intros pushes_trans[OF _ pushes_seed_source] split: option.split)

interpretation seed_operand_pushes: keeps_preorder
    "\<lambda>x y. pushes (fst x) (fst y)" "seed_operand cfg m I" for cfg m I
  by unfold_locales (simp_all only: pushes_seed_operand pushes_refl, rule pushes_trans)

lemma pushes_seed_inst: "pushes (fst x) (fst (seed_inst cfg m ni x))"
proof (cases x; cases ni)
  fix s occ stop n I assume x: "x = (s, occ, stop)" "ni = (n, I)"
  have "pushes s (fst (fold (seed_operand cfg m I) ops (emit_if c t v tx s, occ', False)))"
    for ops c t v tx occ'
    by (rule pushes_trans[OF _ seed_operand_pushes.R_fold[of "(emit_if c t v tx s, occ', False)", unfolded fst_conv]])
      (intro push_intros pushes_refl)
  then show ?thesis
    by (auto simp: x seed_inst.simps Let_def simp del: append.simps intro!: push_intros)
qed

interpretation seed_inst_pushes: keeps_preorder
    "\<lambda>x y. pushes (fst x) (fst y)" "seed_inst cfg m" for cfg m
  by unfold_locales (simp_all only: pushes_seed_inst pushes_refl, rule pushes_trans)

lemma pushes_seed_block: "pushes (fst x) (fst (seed_block cfg m nb x))"
proof (cases x; cases nb)
  fix s occ stop n B assume x: "x = (s, occ, stop)" "nb = (n, B)"
  have "pushes s (fst (fold (seed_inst cfg m) ops (emit_if c t v tx s, occ', False)))"
    for ops c t v tx occ'
    by (rule pushes_trans[OF _ seed_inst_pushes.R_fold[of "(emit_if c t v tx s, occ', False)", unfolded fst_conv]])
      (intro push_intros pushes_refl)
  then show ?thesis
    by (auto simp: x seed_block.simps simp del: append.simps)
qed

interpretation seed_block_pushes: keeps_preorder
    "\<lambda>x y. pushes (fst x) (fst y)" "seed_block cfg m" for cfg m
  by unfold_locales (simp_all only: pushes_seed_block pushes_refl, rule pushes_trans)

interpretation seed_fun_pushes: keeps_preorder
    "\<lambda>x y. pushes (fst x) (fst y)" "seed_function cfg m" for cfg m
  by unfold_locales (auto simp: seed_function_def intro: seed_block_pushes.R_fold pushes_trans)

lemma pushes_seed: "pushes s (seed cfg m s)"
  using seed_fun_pushes.R_fold[of "(s, 0, False)" cfg m "funcs m"] by (simp add: seed_def)

subsection \<open>The phases together\<close>

lemma seed_pending: "pending cfg m (seed cfg m (start cfg m))"
  by (rule pending_step[OF start_facts(2) grows_seed[OF grows_refl] pushes_seed])

lemmas phase2_end = forward_end[OF seed_pending, folded phase2_def]

lemma phase2_awaiting: "awaiting m (phase2 cfg m)"
  unfolding awaiting_def
proof
  fix V assume "V \<in> set (TaintedValues (phase2 cfg m)) - set (Worklist (phase2 cfg m))"
  then show "covered_value m (phase2 cfg m) V"
    by (intro closed_value_covered[of cfg] phase2_end(2)) simp
qed

definition upward_runs :: "pass_params \<Rightarrow> tstate \<Rightarrow> bool" where
  "upward_runs cfg s = (UpwardInterprocMode cfg
     \<and> (FunctionsReturningTaint s \<noteq> [] \<or> FunctionsTaintingPointerParams s \<noteq> []))"

lemma run_fields:
  "Worklist (run cfg m) = Worklist (upward cfg m (phase2 cfg m))"
  "TaintedValues (run cfg m) = TaintedValues (upward cfg m (phase2 cfg m))"
  "TaintedPointers (run cfg m) = TaintedPointers (upward cfg m (phase2 cfg m))"
  "ValueLevel (run cfg m) = ValueLevel (upward cfg m (phase2 cfg m))"
  "FunctionsReturningTaint (run cfg m) = FunctionsReturningTaint (upward cfg m (phase2 cfg m))"
  "PointerTaintOrigin (run cfg m) = PointerTaintOrigin (upward cfg m (phase2 cfg m))"
  "ptr_params (run cfg m) = ptr_params (upward cfg m (phase2 cfg m))"
  "KilledStores (run cfg m) = KilledStores (upward cfg m (phase2 cfg m))"
  unfolding run_def report_def by (rule fold_keeps, simp)+

lemma run_grows: "grows m (upward cfg m (phase2 cfg m)) (run cfg m)"
  unfolding run_def report_def
  by (rule keeps_preorder.R_fold, unfold_locales) (auto intro: grow_intros grows_trans)

text \<open>When phase 5 runs, the state it ends with, up to what is printed.\<close>

lemma upward_end_state:
  assumes "upward_runs cfg (phase2 cfg m)"
  obtains s t where "awaiting m s" "t = upward_loop cfg m 1 [] s" "grows m t (run cfg m)"
    "Worklist (run cfg m) = Worklist t" "TaintedValues (run cfg m) = TaintedValues t"
    "TaintedPointers (run cfg m) = TaintedPointers t"
    "FunctionsReturningTaint (run cfg m) = FunctionsReturningTaint t"
    "ptr_params (run cfg m) = ptr_params t"
proof -
  let ?s = "emit_if (Verbose cfg) VERBOSE nullptr
      ''=== Upward Interprocedural Tracking (Recursive) ==='' (phase2 cfg m)"
  let ?t = "upward_loop cfg m 1 [] ?s"
  have u: "upward cfg m (phase2 cfg m) = emit_if (Verbose cfg) VERBOSE nullptr '''' ?t"
    using assms unfolding upward_def upward_runs_def by (rule if_P)
  have "awaiting m ?s"
    by (rule awaiting_step[OF phase2_awaiting[of m cfg]]) (intro grow_intros push_intros grows_refl pushes_refl)+
  moreover have "grows m ?t (run cfg m)"
    by (rule grows_trans[OF _ run_grows]) (auto simp: u intro: grows_emit)
  ultimately show ?thesis
    by (rule that[OF _ refl]) (simp_all add: run_fields u)
qed

lemma run_upward_end:
  assumes "upward_runs cfg (phase2 cfg m)"
  shows "Worklist (run cfg m) = []"
    and "V \<in> set (TaintedValues (run cfg m)) \<Longrightarrow> covered_value m (run cfg m) V"
    and "P \<in> set (TaintedPointers (run cfg m)) \<Longrightarrow> unkilled_scanned m (run cfg m) P"
    and "F \<in> set (FunctionsReturningTaint (run cfg m)) \<Longrightarrow> calls_tainted m (run cfg m) F"
    and "(F, i) \<in> ptr_params (run cfg m) \<Longrightarrow> args_tainted m (run cfg m) F i"
proof -
  obtain s t where a: "awaiting m s" and t: "t = upward_loop cfg m 1 [] s"
    and g: "grows m t (run cfg m)"
    and eq: "Worklist (run cfg m) = Worklist t" "TaintedValues (run cfg m) = TaintedValues t"
      "TaintedPointers (run cfg m) = TaintedPointers t"
      "FunctionsReturningTaint (run cfg m) = FunctionsReturningTaint t"
      "ptr_params (run cfg m) = ptr_params t"
    by (rule upward_end_state[OF assms])
  note e = upward_loop_end[OF a t]
  show "Worklist (run cfg m) = []" using e(1) eq by simp
  show "V \<in> set (TaintedValues (run cfg m)) \<Longrightarrow> covered_value m (run cfg m) V"
    using e(2) covered_value_mono[OF g] eq by simp
  show "P \<in> set (TaintedPointers (run cfg m)) \<Longrightarrow> unkilled_scanned m (run cfg m) P"
    using e(3) unkilled_scanned_mono[OF g] eq by simp
  show "F \<in> set (FunctionsReturningTaint (run cfg m)) \<Longrightarrow> calls_tainted m (run cfg m) F"
    using e(4) calls_tainted_mono[OF g] eq by simp
  show "(F, i) \<in> ptr_params (run cfg m) \<Longrightarrow> args_tainted m (run cfg m) F i"
    using e(5) args_tainted_mono[OF g] eq by simp
qed

lemma run_no_upward:
  assumes "\<not> upward_runs cfg (phase2 cfg m)"
  shows "upward cfg m (phase2 cfg m) = phase2 cfg m"
  using assms unfolding upward_def upward_runs_def by (rule if_not_P)

lemma run_worklist: "Worklist (run cfg m) = []"
proof (cases "upward_runs cfg (phase2 cfg m)")
  case True
  then show ?thesis by (rule run_upward_end(1))
next
  case False
  then show ?thesis by (simp add: run_fields run_no_upward phase2_end)
qed

lemma run_covered: "V \<in> set (TaintedValues (run cfg m)) \<Longrightarrow> covered_value m (run cfg m) V"
proof (cases "upward_runs cfg (phase2 cfg m)")
  case True
  then show "V \<in> set (TaintedValues (run cfg m)) \<Longrightarrow> ?thesis" by (rule run_upward_end(2))
next
  case False
  assume "V \<in> set (TaintedValues (run cfg m))"
  then have "covered_value m (phase2 cfg m) V"
    using False by (intro closed_value_covered[of cfg] phase2_end(2)) (simp add: run_fields run_no_upward)
  then show ?thesis
    using covered_value_mono[OF run_grows, of m cfg V] False by (simp add: run_no_upward)
qed

lemma run_sound: "sound cfg m (run cfg m)"
proof -
  have "sound cfg m (upward cfg m (phase2 cfg m))"
    unfolding phase2_def by (intro sound_upward sound_forward sound_seed start_sound)
  then show ?thesis
    unfolding run_def report_def by (intro fold_sound[where I = "sound cfg m"] sound_prims)
qed

lemma seed_to_run: "grows m (seed cfg m (start cfg m)) (run cfg m)"
proof -
  have "grows m (seed cfg m (start cfg m)) (upward cfg m (phase2 cfg m))"
    unfolding phase2_def by (intro grow_intros grows_refl)
  then show ?thesis using run_grows by (rule grows_trans)
qed

lemma start_to_run: "grows m (start cfg m) (run cfg m)"
  by (rule grows_trans[OF grows_seed[OF grows_refl] seed_to_run])

end
