(* ===== verification/Invariants.thy ===== *)
theory Invariants
  imports Analysis
begin

text \<open>
  Invariants of the whole run. Everything \<open>run\<close> does to its variables is a composition of a
  few updates. What each of them keeps is kept by every operation, every loop and the run:
  \<open>step_invariant\<close> proves this once. It asks for the updates of levels only together with the
  taint they come with, as the code makes them; \<open>primitive_invariant\<close> is the case of a
  property that every single update keeps. Its instances here are the well-formedness of the
  containers and the agreement of the tainted pointers with their recorded origins.
\<close>

lemma taint_push_emit: "taint_push v (emit t x tx s) = emit t x tx (taint_push v s)"
  by (simp add: primitive_defs)

locale step_invariant =
  fixes m :: llmodule and I :: "tstate \<Rightarrow> bool"
  assumes I_emit: "I s \<Longrightarrow> I (emit t v tx s)"
    and I_taint_pointer: "I s \<Longrightarrow> is_inst m org \<Longrightarrow> I (taint_pointer p org s)"
    and I_add_returning: "I s \<Longrightarrow> I (add_returning f s)"
    and I_add_ptr_param: "I s \<Longrightarrow> I (add_ptr_param f i s)"
    and I_add_fields: "I s \<Longrightarrow> I (add_fields f i ixs s)"
    and I_add_killed: "I s \<Longrightarrow> as_store m k = Some (v, q) \<Longrightarrow>
        strip m q \<in> set (TaintedPointers s) \<Longrightarrow> I (add_killed k s)"
    and I_set_changed: "I s \<Longrightarrow> I (set_changed b s)"
    and I_set_discovered: "I s \<Longrightarrow> I (set_discovered b s)"
    and I_pop: "I s \<Longrightarrow> I (pop_worklist s)"
    and I_add_target: "I s \<Longrightarrow> I (add_target p f s)"
    and I_level: "I s \<Longrightarrow> I (set_level c (level m s v) s)"
    and I_ensure: "I s \<Longrightarrow> I (ensureLevelSet m x s)"
    and I_flevel_zero: "I s \<Longrightarrow> I (set_flevel f 0 s)"
    and I_source: "I s \<Longrightarrow> c \<notin> set (TaintedValues s) \<Longrightarrow> I (taint_push c (set_level c 0 s))"
    and I_flow: "I s \<Longrightarrow> u \<notin> set (TaintedValues s) \<Longrightarrow>
        I (taint_push u (set_level u (level m s v) s))"
    and I_load: "I s \<Longrightarrow> x \<notin> set (TaintedValues s) \<Longrightarrow> as_load m x \<noteq> None \<Longrightarrow> I (taint_push x s)"
    and I_down: "I s \<Longrightarrow> p \<notin> set (TaintedValues s) \<Longrightarrow>
        I (taint_push p (set_flevel f (level m s v - 1) (set_level p (level m s v - 1) s)))"
    and I_up: "I s \<Longrightarrow> c \<notin> set (TaintedValues s) \<Longrightarrow>
        I (taint_push c (raise_function g (level_of_function (FunctionLevel s) f + 1)
             (set_level c (level_of_function (FunctionLevel s) f + 1) s)))"
    and I_up_param: "I s \<Longrightarrow> \<not> ptr_param_known s g i \<Longrightarrow>
        I (raise_function g (level_of_function (FunctionLevel s) f + 1)
             (set_discovered True (add_ptr_param g i s)))"
    and I_up_pointer: "I s \<Longrightarrow> is_inst m c \<Longrightarrow> p \<notin> set (TaintedPointers s) \<Longrightarrow>
        I (raise_function g (level_of_function (FunctionLevel s) f + 1) (taint_pointer p c s))"
begin

lemma I_emit_if: "I s \<Longrightarrow> I (emit_if c t v tx s)"
  by (simp add: emit_if_def I_emit)

lemma I_track: "I s \<Longrightarrow> I (track_gep m p s)"
  by (auto simp: track_gep_def intro!: I_emit split: option.split prod.split)

lemmas I_prims = I_emit I_taint_pointer I_add_returning I_add_ptr_param I_add_fields I_add_killed
  I_set_changed I_set_discovered I_add_target I_emit_if I_ensure I_level I_track I_flow I_load
  I_up_param I_up_pointer

lemma I_record: "I s \<Longrightarrow> I (record_fields f i ixs s)"
  by (auto simp: record_fields_def simp del: append.simps intro!: I_prims)

lemma I_store: "I s \<Longrightarrow> I (fst (processStoreForTaint cfg m S V s))"
  by (auto simp: processStoreForTaint_def Let_def simp del: append.simps intro!: I_prims I_record
      intro: store_is_inst split: option.split)

lemma I_param:
  "I s \<Longrightarrow> args_of m F ! i \<notin> set (TaintedValues s) \<Longrightarrow> I (taint_param cfg m mg F i (level m s v) C s)"
  by (simp add: taint_param_def Let_def I_emit I_down del: append.simps)

lemma I_fold: "(\<And>x s. I s \<Longrightarrow> I (f x s)) \<Longrightarrow> I s \<Longrightarrow> I (fold f xs s)"
  by (rule fold_sound[where I = I])

lemma I_fold_fst:
  "(\<And>x s. I (fst s) \<Longrightarrow> I (fst (f x s))) \<Longrightarrow> I (fst s) \<Longrightarrow> I (fst (fold f xs s))"
  by (rule fold_sound[where I = "\<lambda>x. I (fst x)"])

lemma I_start: "I init_state \<Longrightarrow> I (start cfg m)"
  by (auto simp: start_def build_targets_def print_config_def store_target_def Let_def
      simp del: append.simps intro!: I_fold I_prims split: option.split)

lemma I_seed_source:
  assumes "I s" "C \<notin> set (TaintedValues s)"
  shows "I (seed_source cfg m C CI s)"
proof -
  have ret: "I s \<Longrightarrow> I (seed_return cfg m C CI s)" for s
    by (auto simp: seed_return_def Let_def simp del: append.simps intro!: I_prims split: option.split)
  have st: "I s \<Longrightarrow> I (seed_store cfg m C s)" for s
    by (auto simp: seed_store_def Let_def simp del: append.simps intro!: I_prims I_record
        intro: store_is_inst split: option.split prod.split)
  have cl: "I s \<Longrightarrow> I (seed_call cfg m C CI s)" for s
    by (auto simp: seed_call_def seed_call_arg_def seed_indirect_arg_def Let_def
        simp del: append.simps intro!: I_fold I_emit I_param split: option.split prod.split)
  show ?thesis
    unfolding seed_source_def Let_def
    by (intro cl st ret I_emit) (simp add: level_push_commute I_flevel_zero I_source assms)
qed

lemma I_seed: "I s \<Longrightarrow> I (seed cfg m s)"
proof -
  have op: "I (fst x) \<Longrightarrow> I (fst (seed_operand cfg m C no x))" for C no x
    by (cases x; cases no)
      (auto simp: seed_operand.simps Let_def simp del: append.simps intro!: I_prims I_seed_source
        split: option.split)
  have ins: "I (fst x) \<Longrightarrow> I (fst (seed_inst cfg m ni x))" for ni x
    by (cases x; cases ni)
      (auto simp: seed_inst.simps Let_def simp del: append.simps intro!: I_prims I_fold_fst op)
  have blk: "I (fst x) \<Longrightarrow> I (fst (seed_block cfg m nb x))" for nb x
    by (cases x; cases nb)
      (auto simp: seed_block.simps simp del: append.simps intro!: I_prims I_fold_fst ins)
  show "I s \<Longrightarrow> ?thesis"
    by (auto simp: seed_def seed_function_def intro!: I_fold_fst blk)
qed

lemma I_process_value: "I s \<Longrightarrow> I (process_value cfg m V s)"
proof -
  have ind: "I s \<Longrightarrow> I (indirect_target cfg m V U i T s)" for U i T s
    by (auto simp: indirect_target_def Let_def simp del: append.simps intro!: I_prims I_param)
  have call: "I s \<Longrightarrow> I (call_sink cfg m V U s)" for U s
    by (auto simp: call_sink_def call_direct_def call_indirect_def Let_def simp del: append.simps
        intro!: I_prims I_param I_fold ind split: option.split)
  have st: "I s \<Longrightarrow> is_inst m U \<Longrightarrow> I (fst (use_store cfg m U p s))" for U p s
    by (auto simp: use_store_def Let_def simp del: append.simps intro!: I_prims split: option.split)
  have pr: "I s \<Longrightarrow> I (propagate cfg m V U s)" for U s
    by (auto simp: propagate_def Let_def simp del: append.simps intro!: I_prims)
  have rt: "I s \<Longrightarrow> I (use_return cfg m U s)" for U s
    by (auto simp: use_return_def Let_def simp del: append.simps intro!: I_prims)
  have us: "I s \<Longrightarrow> I (forward_use cfg m V U s)" for U s
    by (auto simp: forward_use_def Let_def split_beta simp del: append.simps
        intro!: I_prims call st pr rt split: option.split)
  show "I s \<Longrightarrow> ?thesis"
    by (auto simp: process_value_def simp del: append.simps intro!: I_fold us I_prims)
qed

lemma I_scan: "I s \<Longrightarrow> I (fst (scanLoadsFromTaintedPointers cfg m pts ks s))"
proof -
  have ld: "I (fst x) \<Longrightarrow> I (fst (scan_load cfg m ks P C x))" for P C x
    by (cases x) (auto simp: scan_load.simps Let_def taint_push_emit simp del: append.simps
        intro!: I_prims split: option.split)
  show "I s \<Longrightarrow> ?thesis"
    by (auto simp: scanLoadsFromTaintedPointers_def scan_pointer_def intro!: I_fold_fst ld)
qed

lemma I_kills: "I s \<Longrightarrow> I (find_kills cfg m s)"
  by (auto simp: find_kills_def kill_store_def Let_def simp del: append.simps
      intro!: I_fold I_prims split: option.split)

lemma I_forward_round: "I s \<Longrightarrow> forward_round cfg m sc s = (sc', t) \<Longrightarrow> I t"
proof -
  have dr: "I s \<Longrightarrow> I (drain cfg m s)" for s
    by (rule drain_invariant) (auto intro!: I_process_value I_pop)
  have "I s \<Longrightarrow> I (snd (forward_round cfg m sc s))"
    unfolding forward_round_def Let_def split_beta
    by (auto intro!: I_set_changed I_scan I_kills dr)
  then show "I s \<Longrightarrow> forward_round cfg m sc s = (sc', t) \<Longrightarrow> I t" by simp
qed

lemma I_forward: "I s \<Longrightarrow> I (forward cfg m s)"
proof -
  have "I s \<Longrightarrow> m' = m \<Longrightarrow> I (forward_loop cfg m' sc s)" for m' sc
  proof (induction cfg m' sc s rule: forward_loop.induct)
    case (1 cfg m' sc s)
    obtain sc' s' where r: "forward_round cfg m' sc s = (sc', s')" by fastforce
    show ?case
      using "1.IH"[OF r[symmetric]] I_forward_round[OF "1.prems"(1)] r "1.prems"(2)
      by (subst forward_loop.simps) (simp add: r)
  qed
  then show "I s \<Longrightarrow> ?thesis" by (simp add: forward_def)
qed

lemma I_5ab: "I s \<Longrightarrow> I (step_5b cfg m (step_5a cfg m s))"
proof -
  have rc: "I (fst x) \<Longrightarrow> I (fst (returning_call cfg m TF C x))" for TF C x
    by (cases x) (auto simp: Let_def taint_push_emit simp del: append.simps intro!: I_emit I_up
        split: option.split)
  have a: "I s \<Longrightarrow> I (step_5a cfg m s)" for s
    unfolding step_5a_def callers_of_returning_def split_beta
    by (auto simp del: append.simps intro!: I_fold I_fold_fst I_prims rc)
  have sf: "I s \<Longrightarrow> is_inst m C \<Longrightarrow> I (struct_fields m TF i C PV s)" for TF i C PV s
    by (auto simp: struct_fields_def struct_user_def struct_store_def Let_def simp del: append.simps
        intro!: I_fold I_prims split: option.split)
  have pa: "I s \<Longrightarrow> is_inst m C \<Longrightarrow> I (param_arg cfg m TF C args i s)" for TF C args i s
    by (auto simp: param_arg_def pass_through_def taint_pointed_def Let_def simp del: append.simps
        intro!: I_prims sf)
  have pc: "I (fst x) \<Longrightarrow> I (fst (param_call cfg m TF ps C x))" for TF ps C x
    by (cases x) (auto intro!: I_fold pa intro: call_is_inst split: option.split)
  have ct: "I s \<Longrightarrow> I (callers_of_tainting cfg m fp s)" for fp s
    by (cases fp) (auto simp: split_beta simp del: append.simps intro!: I_fold_fst I_prims pc)
  show "I s \<Longrightarrow> ?thesis"
    unfolding step_5b_def by (intro I_fold ct a)
qed

lemma I_upward_value: "I s \<Longrightarrow> I (upward_value cfg m V s)"
proof -
  have st: "I s \<Longrightarrow> I (case processStoreForTaint cfg m U V s of
      (s', True) \<Rightarrow> set_discovered True s' | (s', False) \<Rightarrow> s')" for U s
    using I_store[of s cfg U V] by (auto simp: split_beta intro: I_set_discovered split: bool.split)
  have us: "I (fst x) \<Longrightarrow> I (fst (upward_use cfg m V U x))" for U x
    by (cases x) (auto simp: Let_def simp del: append.simps intro!: I_prims st)
  show "I s \<Longrightarrow> ?thesis"
    unfolding upward_value_def split_beta
    by (auto simp del: append.simps intro!: I_fold_fst I_prims us)
qed

lemma I_upward_drain: "I s \<Longrightarrow> I (upward_drain cfg m s)"
  by (rule upward_drain_keeps[where I = I]) (auto intro: I_upward_value I_pop)

lemma I_upward_scan: "I s \<Longrightarrow> m' = m \<Longrightarrow> I (snd (upward_scan cfg m' usc s))"
proof (induction cfg m' usc s rule: upward_scan.induct)
  case (1 cfg m' usc s)
  show ?case
    using "1.IH"[OF refl refl] I_upward_drain[OF "1.prems"(1)] I_scan "1.prems"(2)
    by (subst upward_scan.simps) (simp add: Let_def)
qed

lemma I_upward: "I s \<Longrightarrow> I (upward cfg m s)"
proof -
  have rnd: "I t" if "I s" "upward_round cfg m n usc s = (usc', t)" for n usc s usc' t
    using that unfolding upward_round_def Let_def split_beta
    by (auto simp del: append.simps intro!: I_emit_if I_set_discovered I_upward_scan I_5ab)
  have loop: "I (upward_loop cfg m n usc s)" if s: "I s" for n usc s
  proof -
    obtain k usc0 s0 usc' where "I s0"
        "upward_round cfg m k usc0 s0 = (usc', upward_loop cfg m n usc s)"
      using upward_loop_rule[where P = "\<lambda>_. I" and usc = usc and s = s and cfg = cfg
          and m = m and k = n, OF s] rnd by blast
    then show ?thesis by (rule rnd)
  qed
  show "I s \<Longrightarrow> ?thesis"
    unfolding upward_def by (auto intro!: I_emit_if loop)
qed

lemma I_run: "I init_state \<Longrightarrow> I (run cfg m)"
  unfolding run_def report_def phase2_def
  by (intro I_fold I_emit I_upward I_forward I_seed I_start)

end

locale primitive_invariant =
  fixes I :: "tstate \<Rightarrow> bool"
  assumes P_emit: "I s \<Longrightarrow> I (emit t v tx s)"
    and P_set_level: "I s \<Longrightarrow> I (set_level v l s)"
    and P_set_flevel: "I s \<Longrightarrow> I (set_flevel f l s)"
    and P_taint_push: "I s \<Longrightarrow> I (taint_push v s)"
    and P_taint_pointer: "I s \<Longrightarrow> I (taint_pointer p org s)"
    and P_add_returning: "I s \<Longrightarrow> I (add_returning f s)"
    and P_add_ptr_param: "I s \<Longrightarrow> I (add_ptr_param f i s)"
    and P_add_fields: "I s \<Longrightarrow> I (add_fields f i ixs s)"
    and P_add_killed: "I s \<Longrightarrow> I (add_killed k s)"
    and P_set_changed: "I s \<Longrightarrow> I (set_changed b s)"
    and P_set_discovered: "I s \<Longrightarrow> I (set_discovered b s)"
    and P_pop: "I s \<Longrightarrow> I (pop_worklist s)"
    and P_add_target: "I s \<Longrightarrow> I (add_target p f s)"

sublocale primitive_invariant \<subseteq> step_invariant m I for m
  by unfold_locales
    (simp_all add: P_emit P_set_level P_set_flevel P_taint_push P_taint_pointer P_add_returning
      P_add_ptr_param P_add_fields P_add_killed P_set_changed P_set_discovered P_pop P_add_target
      ensureLevelSet_def raise_function_def)

subsection \<open>Well-formed containers\<close>

text \<open>No element twice in a set, no key twice in a map. The sets inside the maps are not looked at.\<close>

definition keys_distinct :: "('k, 'v) dmap \<Rightarrow> bool" where
  "keys_distinct d = distinct (map fst d)"

lemma keys_distinct_simps [simp]:
  "keys_distinct []" "keys_distinct d \<Longrightarrow> keys_distinct (dm_set k v d)"
  by (simp_all add: keys_distinct_def distinct_dm_set del: map_map)

definition valid_state :: "tstate \<Rightarrow> bool" where
  "valid_state s = (distinct (TaintedValues s) \<and> distinct (TaintedPointers s)
     \<and> distinct (KilledStores s) \<and> distinct (FunctionsReturningTaint s)
     \<and> keys_distinct (PointerTaintOrigin s) \<and> keys_distinct (ValueLevel s)
     \<and> keys_distinct (FunctionLevel s) \<and> keys_distinct (FunctionsTaintingPointerParams s)
     \<and> keys_distinct (FunctionParamFieldAccess s) \<and> keys_distinct (FunctionPointerTargets s))"

lemma valid_init: "valid_state init_state"
  by (simp add: valid_state_def init_state_def)

interpretation valid: primitive_invariant valid_state
  by unfold_locales
    (simp_all add: valid_state_def primitive_defs pop_worklist_def add_target_def Let_def)

subsection \<open>Tainted pointers and their origins\<close>

definition origins_known :: "tstate \<Rightarrow> bool" where
  "origins_known s = (set (TaintedPointers s) = dom (map_of (PointerTaintOrigin s)))"

lemma origins_init: "origins_known init_state"
  by (simp add: origins_known_def init_state_def)

interpretation origins: primitive_invariant origins_known
  by unfold_locales
    (simp_all add: origins_known_def primitive_defs pop_worklist_def add_target_def Let_def)

subsection \<open>The instructions the maps refer to\<close>

definition sites_ok :: "llmodule \<Rightarrow> tstate \<Rightarrow> bool" where
  "sites_ok m s = ((\<forall>(p, Org) \<in> set (PointerTaintOrigin s). is_inst m Org)
     \<and> (\<forall>K \<in> set (KilledStores s). \<exists>v q. as_store m K = Some (v, q) \<and> strip m q \<in> set (TaintedPointers s)))"

lemma sites_init: "sites_ok m init_state"
  by (simp add: sites_ok_def init_state_def)

lemma sites_frame:
  "sites_ok m s \<Longrightarrow> PointerTaintOrigin t = PointerTaintOrigin s \<Longrightarrow> KilledStores t = KilledStores s \<Longrightarrow>
     TaintedPointers t = TaintedPointers s \<Longrightarrow> sites_ok m t"
  by (simp add: sites_ok_def)

lemma sites_pointer: "sites_ok m s \<Longrightarrow> is_inst m c \<Longrightarrow> sites_ok m (taint_pointer p c s)"
  using set_dm_set[of p c "PointerTaintOrigin s"] unfolding sites_ok_def by fastforce

lemma sites_kill:
  "sites_ok m s \<Longrightarrow> as_store m k = Some (v, q) \<Longrightarrow> strip m q \<in> set (TaintedPointers s) \<Longrightarrow>
     sites_ok m (add_killed k s)"
  unfolding sites_ok_def by auto

interpretation sites: step_invariant m "sites_ok m" for m
  by unfold_locales
    (erule (1) sites_pointer | erule (2) sites_kill
      | (rule sites_frame[OF sites_pointer], assumption, assumption, simp, simp, simp)
      | (erule sites_frame; simp add: add_target_def))+

end
