(* ===== verification/Levels.thy ===== *)
theory Levels
  imports Invariants
begin

text \<open>
  The levels of the run. A level is changed only together with something new: each step to a
  callee or a caller taints a value, taints a pointer or records a parameter, and moves the
  level by one. So no level is further from 0 than the number of things found (\<open>depth\<close>), and
  a tainted value has a level of its own unless it was tainted as a load.
\<close>

subsection \<open>How far a level can be from 0\<close>

definition depth :: "tstate \<Rightarrow> nat" where
  "depth s = length (TaintedValues s) + length (TaintedPointers s) + card (ptr_params s)"

definition within :: "nat \<Rightarrow> ('k, int) dmap \<Rightarrow> bool" where
  "within n d = (\<forall>(k, l) \<in> set d. \<bar>l\<bar> \<le> int n)"

definition levels_within :: "nat \<Rightarrow> tstate \<Rightarrow> bool" where
  "levels_within n s = (within n (ValueLevel s) \<and> within n (FunctionLevel s))"

lemma within_mono: "within n d \<Longrightarrow> n \<le> k \<Longrightarrow> within k d"
  by (fastforce simp: within_def)

lemma within_set: "within n d \<Longrightarrow> \<bar>l\<bar> \<le> int n \<Longrightarrow> within n (dm_set k l d)"
  using set_dm_set[of k l d] unfolding within_def by fastforce

lemma within_get: "within n d \<Longrightarrow> \<bar>dm_get 0 d k\<bar> \<le> int n"
  by (auto simp: within_def dm_get_def split: option.split dest!: map_of_SomeD)

lemma within_level: "levels_within n s \<Longrightarrow> \<bar>level m s v\<bar> \<le> int n"
  by (auto simp: levels_within_def level_def getLevel_def within_get split: vkind.split)

lemma within_flevel: "levels_within n s \<Longrightarrow> \<bar>level_of_function (FunctionLevel s) f\<bar> \<le> int n"
  by (auto simp: levels_within_def level_of_function_def within_get)

lemma levels_within_mono: "levels_within n s \<Longrightarrow> n \<le> k \<Longrightarrow> levels_within k s"
  by (auto simp: levels_within_def intro: within_mono)

lemma levels_within_step:
  "levels_within n s \<Longrightarrow> \<bar>l\<bar> \<le> int n \<Longrightarrow> levels_within n (set_level v l s)"
  "levels_within n s \<Longrightarrow> \<bar>l\<bar> \<le> int n \<Longrightarrow> levels_within n (set_flevel f l s)"
  "levels_within n s \<Longrightarrow> \<bar>l\<bar> \<le> int n \<Longrightarrow> levels_within n (raise_function f l s)"
  by (simp_all add: levels_within_def primitive_defs raise_function_def within_set)

lemma levels_within_same:
  "ValueLevel t = ValueLevel s \<Longrightarrow> FunctionLevel t = FunctionLevel s \<Longrightarrow>
     levels_within n t = levels_within n s"
  by (simp add: levels_within_def)

subsection \<open>What new things add to the depth\<close>

lemma finite_ptr_params: "finite (ptr_params s)"
proof (rule finite_subset)
  let ?d = "FunctionsTaintingPointerParams s"
  show "ptr_params s \<subseteq> fst ` set ?d \<times> (\<Union>e \<in> set ?d. set (snd e))"
  proof (rule subrelI)
    fix f i assume "(f, i) \<in> ptr_params s"
    then obtain ps where "(f, ps) \<in> set ?d" "i \<in> set ps"
      by (cases "map_of ?d f") (auto simp: ptr_params_def dm_get_def dest: map_of_SomeD)
    then show "(f, i) \<in> fst ` set ?d \<times> (\<Union>e \<in> set ?d. set (snd e))" by force
  qed
qed simp

lemma card_new_pair: "\<not> ptr_param_known s g i \<Longrightarrow> card (insert (g, i) (ptr_params s)) = Suc (card (ptr_params s))"
  using finite_ptr_params[of s] by (simp add: ptr_param_known_iff)

lemma depth_same:
  "TaintedValues t = TaintedValues s \<Longrightarrow> TaintedPointers t = TaintedPointers s \<Longrightarrow>
     ptr_params t = ptr_params s \<Longrightarrow> depth t = depth s"
  by (simp add: depth_def)

lemma depth_new:
  "v \<notin> set (TaintedValues s) \<Longrightarrow> depth (taint_push v s) = Suc (depth s)"
  "p \<notin> set (TaintedPointers s) \<Longrightarrow> depth (taint_pointer p c s) = Suc (depth s)"
  "\<not> ptr_param_known s g i \<Longrightarrow> depth (add_ptr_param g i s) = Suc (depth s)"
  by (simp_all add: depth_def length_ds_insert card_new_pair)

lemma depth_levels [simp]:
  "depth (emit t v tx s) = depth s" "depth (set_level v l s) = depth s"
  "depth (set_flevel f l s) = depth s" "depth (raise_function f l s) = depth s"
  "depth (set_discovered b s) = depth s"
  by (simp_all add: depth_def)

lemma raise_flevel: "FunctionLevel (raise_function g l s) =
    (if g \<noteq> nullptr \<and> \<not> dm_count (FunctionLevel s) g then dm_set g l (FunctionLevel s) else FunctionLevel s)"
  by (simp add: raise_function_def)

definition bounded :: "tstate \<Rightarrow> bool" where
  "bounded s = levels_within (depth s) s"

text \<open>Updates that leave the levels alone, and do not lose anything found.\<close>

lemma bounded_frame:
  "bounded s \<Longrightarrow> ValueLevel t = ValueLevel s \<Longrightarrow> FunctionLevel t = FunctionLevel s \<Longrightarrow>
     depth s \<le> depth t \<Longrightarrow> bounded t"
  unfolding bounded_def using levels_within_mono levels_within_same by blast

text \<open>Updates of levels that stay, and updates that come with something new.\<close>

lemma bounded_level:
  "bounded s \<Longrightarrow> \<bar>l\<bar> \<le> int (depth s) \<Longrightarrow> bounded (set_level v l s)"
  "bounded s \<Longrightarrow> \<bar>l\<bar> \<le> int (depth s) \<Longrightarrow> bounded (set_flevel f l s)"
  by (simp_all add: bounded_def levels_within_step)

lemma bounded_new:
  assumes "bounded s" "depth t = Suc (depth s)" "\<bar>l\<bar> \<le> int (depth s) + 1"
    and "ValueLevel t = ValueLevel u" "FunctionLevel t = FunctionLevel u"
    and "\<And>n. levels_within n s \<Longrightarrow> \<bar>l\<bar> \<le> int n \<Longrightarrow> levels_within n u"
  shows "bounded t"
proof -
  have "levels_within (Suc (depth s)) s"
    using assms(1) unfolding bounded_def by (rule levels_within_mono) simp
  from assms(6)[OF this] assms(2-5) show ?thesis
    by (simp add: bounded_def levels_within_same[of t u])
qed

lemma bounded_ensure: "bounded s \<Longrightarrow> bounded (ensureLevelSet m x s)"
proof -
  assume b: "bounded s"
  then have "\<bar>dm_get 0 (FunctionLevel s) f\<bar> \<le> int (depth s)" for f
    by (simp add: bounded_def levels_within_def within_get)
  then show ?thesis using b by (simp add: ensureLevelSet_def bounded_level)
qed

lemma depth_mono:
  "depth s \<le> depth (taint_pointer p c s)" "depth s \<le> depth (add_returning f s)"
  "depth s \<le> depth (add_ptr_param f i s)" "depth s \<le> depth (add_fields f i ixs s)"
  "depth s \<le> depth (add_killed k s)" "depth s \<le> depth (set_changed b s)"
  "depth s \<le> depth (pop_worklist s)" "depth s \<le> depth (add_target p f s)"
  "depth s \<le> depth (taint_push x s)"
  using finite_ptr_params[of s]
  by (simp_all add: depth_def length_ds_insert card_insert_le) (simp add: ptr_params_def add_target_def)

interpretation bounded: step_invariant m bounded for m
proof unfold_locales
  fix s c v f p x g i u assume b: "bounded s"
  have lv: "\<bar>level m s v\<bar> \<le> int (depth s)" for m v
    using b unfolding bounded_def by (rule within_level)
  have fl: "\<bar>level_of_function (FunctionLevel s) f\<bar> \<le> int (depth s)" for f
    using b unfolding bounded_def by (rule within_flevel)
  note steps = levels_within_step
  show "bounded (set_level c (level m s v) s)" "bounded (set_flevel f 0 s)" "bounded (ensureLevelSet m x s)" for m
    using b lv by (simp_all add: bounded_level bounded_ensure)
  show "bounded (taint_push c (set_level c 0 s))" if "c \<notin> set (TaintedValues s)"
    by (rule bounded_new[OF b, where l = 0 and u = "set_level c 0 s"]) (simp_all add: depth_new that steps)
  show "bounded (taint_push u (set_level u (level m s v) s))" if "u \<notin> set (TaintedValues s)" for m
    by (rule bounded_new[OF b, where l = "level m s v" and u = "set_level u (level m s v) s"])
      (use lv[of m v] in \<open>simp_all add: depth_new that steps\<close>)
  show "bounded (taint_push p (set_flevel f (level m s v - 1) (set_level p (level m s v - 1) s)))"
    if "p \<notin> set (TaintedValues s)" for m
    by (rule bounded_new[OF b, where l = "level m s v - 1"
          and u = "set_flevel f (level m s v - 1) (set_level p (level m s v - 1) s)"])
      (use lv[of m v] in \<open>simp_all add: depth_new that steps abs_le_iff\<close>)
  let ?l = "level_of_function (FunctionLevel s) f + 1"
  show "bounded (taint_push c (raise_function g ?l (set_level c ?l s)))" if "c \<notin> set (TaintedValues s)"
    by (rule bounded_new[OF b, where l = ?l and u = "raise_function g ?l (set_level c ?l s)"])
      (use fl[of f] in \<open>simp_all add: depth_new that steps abs_le_iff\<close>)
  show "bounded (raise_function g ?l (set_discovered True (add_ptr_param g i s)))" if "\<not> ptr_param_known s g i"
    by (rule bounded_new[OF b, where l = ?l and u = "raise_function g ?l s"])
      (use fl[of f] that in \<open>simp_all add: depth_new steps abs_le_iff raise_flevel\<close>)
  show "bounded (raise_function g ?l (taint_pointer p c s))" if "p \<notin> set (TaintedPointers s)"
    by (rule bounded_new[OF b, where l = ?l and u = "raise_function g ?l s"])
      (use fl[of f] that in \<open>simp_all add: depth_new steps abs_le_iff raise_flevel\<close>)
qed (auto elim!: bounded_frame simp: depth_mono, simp_all add: add_target_def)

subsection \<open>Which values have a level\<close>

definition recorded :: "llmodule \<Rightarrow> tstate \<Rightarrow> bool" where
  "recorded m s = (\<forall>v \<in> set (TaintedValues s). as_load m v = None \<longrightarrow> v \<in> dom (map_of (ValueLevel s)))"

lemma recorded_init: "recorded m init_state" "bounded init_state"
  by (simp_all add: recorded_def bounded_def levels_within_def within_def init_state_def)

interpretation recorded: step_invariant m "recorded m" for m
  by unfold_locales
    (auto simp: recorded_def primitive_defs raise_function_def ensureLevelSet_def pop_worklist_def
      add_target_def Let_def)

subsection \<open>What the statistics read\<close>

text \<open>The report reads only the levels, and of the tainted values only those that have one.\<close>

lemma report_levelled:
  assumes VL: "ValueLevel t = ValueLevel s" and FL: "FunctionLevel t = FunctionLevel s"
    and TV: "\<And>V. V \<in> dom (map_of (ValueLevel s)) \<Longrightarrow> V \<in> set (TaintedValues t) \<longleftrightarrow> V \<in> set (TaintedValues s)"
  shows "report_lines cfg m t = report_lines cfg m s"
proof -
  have V: "V \<in> set (TaintedValues t) \<longleftrightarrow> V \<in> set (TaintedValues s)" if "(V, l) \<in> set (ValueLevel s)" for V l
    using TV[of V] that by (force simp: dom_map_of_conv_image_fst)
  have mx: "max_level t = max_level s"
    unfolding max_level_def VL by (rule fold_cong) (auto simp: V)
  have cm: "collect_max m t l = collect_max m s l" for l
    unfolding collect_max_def VL by (rule fold_cong) (auto simp: collect_value_def V)
  have vf: "visited_functions m t = visited_functions m s"
    unfolding visited_functions_def VL by (rule fold_cong) (auto simp: V)
  have "at_max_level t l I = at_max_level s l I" for l I
    using TV[of I] by (auto simp: at_max_level_def VL)
  then have "function_ranges m t l c av = function_ranges m s l c av" for l c av
    unfolding function_ranges_def function_range_def[abs_def] by presburger
  then show ?thesis
    by (simp only: report_lines_def report_instructions_def report_arguments_def mx cm vf
        earliest_latest_lines_def instruction_text_def func_level_def VL FL)
qed

text \<open>The report at the end of the log is that of the final state.\<close>

lemma run_report_lines:
  "Log (run cfg m) = Log (upward cfg m (phase2 cfg m)) @ map (Ev REPORT nullptr) (report_lines cfg m (run cfg m))"
proof -
  have "FunctionLevel (run cfg m) = FunctionLevel (upward cfg m (phase2 cfg m))"
    unfolding run_def report_def by (rule fold_keeps) simp
  then have "report_lines cfg m (run cfg m) = report_lines cfg m (upward cfg m (phase2 cfg m))"
    by (intro report_levelled) (simp_all add: run_fields)
  then show ?thesis by (simp add: run_def report_appends)
qed

text \<open>
  Why a load can lack a level: a scan gives it that of its function, when there is one at the
  time, and nothing else otherwise.
\<close>

lemma scan_load_level:
  assumes "scan_load cfg m ks P I (s, ch) = (t, b)" "I \<notin> set (TaintedValues s)" "I \<in> set (TaintedValues t)"
  shows "map_of (ValueLevel t) I = (case map_of (ValueLevel s) I of Some l \<Rightarrow> Some l
     | None \<Rightarrow> if func_of_inst m I \<noteq> nullptr then map_of (FunctionLevel s) (func_of_inst m I) else None)"
  using assms
  by (auto simp: scan_load.simps Let_def ensureLevelSet_def dm_get_def split: option.splits if_splits)

subsection \<open>Properties\<close>

text \<open>
  C38: Levels stay small. Every level recorded for a value or a function is at most as far from
  0 as there are tainted values, tainted pointers and recorded pairs of a function and a
  parameter together. While these are fewer than \<open>2 ^ 31\<close>, the additions and subtractions of 1
  cannot overflow the \<open>int\<close> of the code.
\<close>

theorem levels_bounded:
  assumes "(x, l) \<in> set (ValueLevel (run cfg m)) \<union> set (FunctionLevel (run cfg m))"
  shows "\<bar>l\<bar> \<le> int (length (TaintedValues (run cfg m)) + length (TaintedPointers (run cfg m))
     + card (ptr_params (run cfg m)))"
  using bounded.I_run[OF recorded_init(2), of cfg m] assms
  unfolding bounded_def levels_within_def within_def depth_def by fast

lemma levels_bounded_witness:
  "\<bar>- 1\<bar> \<le> int (length (TaintedValues (run ex_calls_cfg ex_calls))
     + length (TaintedPointers (run ex_calls_cfg ex_calls)) + card (ptr_params (run ex_calls_cfg ex_calls)))"
proof (rule levels_bounded)
  have "(5, - 1) \<in> set (ValueLevel (run ex_calls_cfg ex_calls))" by code_simp
  then show "(5, - 1) \<in> set (ValueLevel (run ex_calls_cfg ex_calls)) \<union> set (FunctionLevel (run ex_calls_cfg ex_calls))"
    by simp
qed

text \<open>
  C26: Which tainted values count in the statistics. Every tainted value that is not a load has
  a level of its own at the end of the run. A load may have none, and it is then left out of
  the statistics: the report that ends the output is the one of a run in which the load is not
  tainted.
\<close>

theorem tainted_have_levels:
  assumes "V \<in> set (TaintedValues (run cfg m))"
  shows "(as_load m V = None \<longrightarrow> (\<exists>l. map_of (ValueLevel (run cfg m)) V = Some l))
     \<and> (map_of (ValueLevel (run cfg m)) V = None \<longrightarrow>
          as_load m V \<noteq> None
          \<and> Log (run cfg m) = Log (upward cfg m (phase2 cfg m)) @ map (Ev REPORT nullptr)
              (report_lines cfg m ((run cfg m)\<lparr>TaintedValues := removeAll V (TaintedValues (run cfg m))\<rparr>)))"
proof -
  have lv: "as_load m V = None \<Longrightarrow> V \<in> dom (map_of (ValueLevel (run cfg m)))"
    using recorded.I_run[OF recorded_init(1), of m cfg] assms by (simp add: recorded_def)
  have "report_lines cfg m ((run cfg m)\<lparr>TaintedValues := removeAll V (TaintedValues (run cfg m))\<rparr>) =
      report_lines cfg m (run cfg m)" if "map_of (ValueLevel (run cfg m)) V = None"
    using that by (intro report_levelled) auto
  with lv run_report_lines[of cfg m] show ?thesis by auto
qed

lemma tainted_have_levels_witness:
  "(\<exists>l. map_of (ValueLevel (run ex_cfg ex_shared)) 12 = Some l)
   \<and> 22 \<in> set (TaintedValues (run ex_cfg ex_shared)) \<and> func_of_inst ex_shared 22 = 2
   \<and> visited_functions ex_shared (run ex_cfg ex_shared) = [1]
   \<and> Log (run ex_cfg ex_shared) = Log (upward ex_cfg ex_shared (phase2 ex_cfg ex_shared))
       @ map (Ev REPORT nullptr) (report_lines ex_cfg ex_shared
           ((run ex_cfg ex_shared)\<lparr>TaintedValues := removeAll 22 (TaintedValues (run ex_cfg ex_shared))\<rparr>))"
proof -
  have "12 \<in> set (TaintedValues (run ex_cfg ex_shared))" "as_load ex_shared 12 = None" by code_simp+
  moreover have l: "22 \<in> set (TaintedValues (run ex_cfg ex_shared))" "func_of_inst ex_shared 22 = 2"
    "visited_functions ex_shared (run ex_cfg ex_shared) = [1]"
    "map_of (ValueLevel (run ex_cfg ex_shared)) 22 = None" by code_simp+
  ultimately show ?thesis
    using tainted_have_levels[of 12 ex_cfg ex_shared] tainted_have_levels[OF l(1)] by simp
qed

end
