(* ===== verification/Report_Facts.thy ===== *)
theory Report_Facts
  imports Report
begin

text \<open>
  What the statistics mean: the largest level, the values and functions counted, and the
  spans, given as list positions.
\<close>

subsection \<open>The largest level\<close>

definition level_step :: "addr dset \<Rightarrow> addr \<times> int \<Rightarrow> int \<Rightarrow> int" where
  "level_step T = (\<lambda>(V, l) maxLevel.
     if \<not> ds_count T V then maxLevel else if l > maxLevel then l else maxLevel)"

lemma level_step_le: "mx \<le> level_step T e mx"
  by (simp add: level_step_def split_beta)

lemma level_steps_le: "mx \<le> fold (level_step T) vl mx"
  by (induction vl arbitrary: mx) (auto intro: order_trans[OF level_step_le])

lemma level_steps_upper:
  "(V, l) \<in> set vl \<Longrightarrow> V \<in> set T \<Longrightarrow> l \<le> fold (level_step T) vl mx"
proof (induction vl arbitrary: mx)
  case (Cons e vl)
  have "l \<le> level_step T (V, l) mx" using Cons.prems by (simp add: level_step_def)
  with Cons show ?case using level_steps_le order_trans by fastforce
qed simp

lemma level_steps_attained:
  "fold (level_step T) vl mx = mx \<or> (\<exists>V \<in> set T. (V, fold (level_step T) vl mx) \<in> set vl)"
proof (induction vl arbitrary: mx)
  case (Cons e vl)
  have "level_step T e mx = mx \<or> (fst e \<in> set T \<and> level_step T e mx = snd e)"
    by (simp add: level_step_def split_beta)
  with Cons.IH[of "level_step T e mx"] show ?case by (cases e) auto
qed simp

lemma max_level_steps: "max_level s = fold (level_step (TaintedValues s)) (ValueLevel s) INT_MIN"
  by (simp add: max_level_def level_step_def)

lemma max_level_upper: "(V, l) \<in> set (ValueLevel s) \<Longrightarrow> V \<in> set (TaintedValues s) \<Longrightarrow> l \<le> max_level s"
  by (simp add: max_level_steps level_steps_upper)

lemma max_level_attained:
  "max_level s = INT_MIN \<or> (\<exists>V \<in> set (TaintedValues s). (V, max_level s) \<in> set (ValueLevel s))"
  using level_steps_attained[of "TaintedValues s"] by (simp add: max_level_steps)

subsection \<open>The values that have it\<close>

definition max_entry :: "tstate \<Rightarrow> int \<Rightarrow> addr \<times> int \<Rightarrow> bool" where
  "max_entry s maxLevel e = (fst e \<in> set (TaintedValues s) \<and> snd e = maxLevel)"

definition in_function :: "llmodule \<Rightarrow> addr \<Rightarrow> addr \<times> int \<Rightarrow> bool" where
  "in_function m F e = (func_of_value m (fst e) = F)"

lemma collect_fold_insts:
  "MaxLevelInstructions (fold (collect_value m s L) vl r) =
     MaxLevelInstructions r @ map fst (filter (\<lambda>e. max_entry s L e \<and> is_inst m (fst e)) vl)"
  by (induction vl arbitrary: r)
    (auto simp: collect_value_def max_entry_def is_inst_def inst_of_def split: vkind.split)

lemma collect_max_insts:
  "MaxLevelInstructions (collect_max m s L) =
     map fst (filter (\<lambda>e. max_entry s L e \<and> is_inst m (fst e)) (ValueLevel s))"
  by (simp add: collect_max_def collect_fold_insts)

definition is_arg :: "llmodule \<Rightarrow> addr \<Rightarrow> bool" where
  "is_arg m V = (case kind_of m V of VArgument F n \<Rightarrow> True | _ \<Rightarrow> False)"

lemma collect_max_args:
  "MaxLevelArguments (collect_max m s L) =
     map fst (filter (\<lambda>e. max_entry s L e \<and> is_arg m (fst e)) (ValueLevel s))"
proof -
  have "MaxLevelArguments (fold (collect_value m s L) vl r) =
      MaxLevelArguments r @ map fst (filter (\<lambda>e. max_entry s L e \<and> is_arg m (fst e)) vl)" for vl r
    by (induction vl arbitrary: r)
      (auto simp: collect_value_def max_entry_def is_arg_def split: vkind.split)
  then show ?thesis by (simp add: collect_max_def)
qed

lemma count_function_get:
  "F \<noteq> nullptr \<Longrightarrow> dm_get 0 (count_function G d) F = dm_get 0 d F + (if G = F then 1 else 0)"
  by (simp add: count_function_def)

lemma collect_fold_counts:
  assumes "F \<noteq> nullptr"
  shows "dm_get 0 (MaxLevelCountPerFunction (fold (collect_value m s L) vl r)) F =
     dm_get 0 (MaxLevelCountPerFunction r) F
       + of_nat (length (filter (\<lambda>e. max_entry s L e \<and> in_function m F e) vl))"
proof (induction vl arbitrary: r)
  case (Cons e vl)
  have "dm_get 0 (MaxLevelCountPerFunction (collect_value m s L e r)) F =
      dm_get 0 (MaxLevelCountPerFunction r) F + (if max_entry s L e \<and> in_function m F e then 1 else 0)"
    using assms
    by (cases e) (auto simp: collect_value_def max_entry_def in_function_def func_of_value_def
        count_function_get split: vkind.split)
  with Cons.IH show ?case by simp
qed simp

lemma collect_max_counts:
  "F \<noteq> nullptr \<Longrightarrow> dm_get 0 (MaxLevelCountPerFunction (collect_max m s L)) F =
     of_nat (length (filter (\<lambda>e. max_entry s L e \<and> in_function m F e) (ValueLevel s)))"
  by (simp add: collect_max_def collect_fold_counts) (simp add: dm_get_def)

lemma count_function_dom: "fst ` set (count_function F d) = fst ` set d \<union> (if F \<noteq> nullptr then {F} else {})"
  using keys_dm_set[of F "dm_get 0 d F + 1" d] by (auto simp: count_function_def)

lemma collect_fold_dom:
  "fst ` set (MaxLevelCountPerFunction (fold (collect_value m s L) vl r)) =
     fst ` set (MaxLevelCountPerFunction r)
       \<union> (func_of_value m ` fst ` {e \<in> set vl. max_entry s L e} - {nullptr})"
proof (induction vl arbitrary: r)
  case (Cons e vl)
  have "fst ` set (MaxLevelCountPerFunction (collect_value m s L e r)) =
      fst ` set (MaxLevelCountPerFunction r)
        \<union> (if max_entry s L e \<and> func_of_value m (fst e) \<noteq> nullptr then {func_of_value m (fst e)} else {})"
    by (cases e) (auto simp: collect_value_def max_entry_def func_of_value_def count_function_dom
        split: vkind.split)
  with Cons.IH show ?case by auto
qed simp

lemma collect_max_dom:
  "fst ` set (MaxLevelCountPerFunction (collect_max m s L)) =
     func_of_value m ` fst ` {e \<in> set (ValueLevel s). max_entry s L e} - {nullptr}"
  by (simp add: collect_max_def collect_fold_dom)

lemma collect_max_distinct: "distinct (map fst (MaxLevelCountPerFunction (collect_max m s L)))"
proof -
  have "distinct (map fst (MaxLevelCountPerFunction (fold (collect_value m s L) vl r)))"
    if "distinct (map fst (MaxLevelCountPerFunction r))" for vl r
    using that
    by (induction vl arbitrary: r)
      (auto simp: collect_value_def count_function_def distinct_dm_set simp del: map_map
        split: vkind.split prod.split)
  then show ?thesis by (simp add: collect_max_def)
qed

subsection \<open>Functions visited\<close>

definition visit_step :: "llmodule \<Rightarrow> addr dset \<Rightarrow> addr \<times> int \<Rightarrow> addr dset \<Rightarrow> addr dset" where
  "visit_step m T = (\<lambda>(V, l) A. if \<not> ds_count T V then A
     else let F = func_of_value m V in if F \<noteq> nullptr then ds_insert F A else A)"

lemma visit_steps:
  "set (fold (visit_step m T) vl A) =
     set A \<union> (func_of_value m ` {V \<in> set T. V \<in> fst ` set vl} - {nullptr})"
  "distinct A \<Longrightarrow> distinct (fold (visit_step m T) vl A)"
  by (induction vl arbitrary: A) (auto simp: visit_step_def Let_def split: prod.split)

lemma visited_steps: "visited_functions m s = fold (visit_step m (TaintedValues s)) (ValueLevel s) []"
  by (simp add: visited_functions_def visit_step_def)

lemma visited_functions_set:
  "set (visited_functions m s) =
     func_of_value m ` {V \<in> set (TaintedValues s). V \<in> fst ` set (ValueLevel s)} - {nullptr}"
  "distinct (visited_functions m s)"
  by (simp_all add: visited_steps visit_steps)

lemma counts_visited:
  "fst ` set (MaxLevelCountPerFunction (collect_max m s L)) \<subseteq> set (visited_functions m s)"
  unfolding collect_max_dom visited_functions_set by (auto simp: max_entry_def)

lemma function_ranges_dom:
  "fst ` set (function_ranges m s L counts A) \<subseteq> set A"
  "fst ` set (function_ranges m s L counts A) \<subseteq> dom (map_of counts)"
  "distinct (map fst (function_ranges m s L counts A))"
proof -
  let ?f = "fold (function_range s L counts A)"
  have "fst ` set (?f fs d) \<subseteq> fst ` set d \<union> (set A \<inter> dom (map_of counts))
      \<and> (distinct (map fst d) \<longrightarrow> distinct (map fst (?f fs d)))" for fs d
  proof (induction fs arbitrary: d)
    case (Cons f fs)
    let ?d = "function_range s L counts A f d"
    have "fst ` set ?d \<subseteq> fst ` set d \<union> (set A \<inter> dom (map_of counts))
        \<and> (distinct (map fst d) \<longrightarrow> distinct (map fst ?d))"
    proof (cases "?d = d")
      case False
      then obtain r where "?d = dm_set (faddr f) r d" "faddr f \<in> set A \<inter> dom (map_of counts)"
        by (auto simp: function_range_def split: if_splits prod.splits)
      moreover have "fst ` set (dm_set (faddr f) r d) = insert (faddr f) (fst ` set d)"
        using keys_dm_set[of "faddr f" r d] by simp
      ultimately show ?thesis by (simp add: distinct_dm_set del: map_map)
    qed simp
    with Cons.IH[of ?d] show ?case by auto
  qed simp
  from this[of "defined_functions m" "[]"]
  show "fst ` set (function_ranges m s L counts A) \<subseteq> set A"
    "fst ` set (function_ranges m s L counts A) \<subseteq> dom (map_of counts)"
    "distinct (map fst (function_ranges m s L counts A))"
    by (auto simp: function_ranges_def)
qed

text \<open>The entries of a map and the elements of a set that are no key of it make up the set.\<close>

lemma keys_length_rest:
  assumes "distinct (map fst d)" "fst ` set d \<subseteq> set A" "distinct A"
  shows "length d + length (filter (\<lambda>F. \<not> dm_count d F) A) = length A"
proof -
  have "dm_count d F \<longleftrightarrow> F \<in> fst ` set d" for F
    by (simp add: dom_map_of_conv_image_fst)
  then have "set (filter (dm_count d) A) = fst ` set d"
    using assms(2) by (auto simp del: dm_count_iff)
  then have "length (filter (dm_count d) A) = length d"
    using assms(1,3) by (metis distinct_card distinct_filter length_map list.set_map)
  then show ?thesis using sum_length_filter_compl[of "dm_count d" A] by simp
qed

subsection \<open>Spans\<close>

lemma first_last_from: "f \<noteq> nullptr \<Longrightarrow>
    fold (\<lambda>I (firstI, lastI). if P I then (if firstI = nullptr then I else firstI, I) else (firstI, lastI)) is (f, l)
      = (f, last (l # filter P is))"
  by (induction "is" arbitrary: l) auto

lemma first_last_eq:
  assumes "nullptr \<notin> set is"
  shows "first_last P is = (case filter P is of [] \<Rightarrow> (nullptr, nullptr) | I # Is \<Rightarrow> (I, last (I # Is)))"
  using assms
proof (induction "is")
  case (Cons I "is")
  then have "I \<noteq> nullptr" by auto
  with Cons show ?case
    using first_last_from[of I P "is" I] by (simp add: first_last_def)
qed (simp add: first_last_def)

text \<open>The instructions from \<open>a\<close> to \<open>b\<close> in a list: the positions between theirs.\<close>

lemma count_span_in: "distinct is \<Longrightarrow> j < length is \<Longrightarrow>
    count_span a (is ! j) True n is = n + of_nat (Suc j)"
proof (induction "is" arbitrary: j n)
  case (Cons I "is")
  show ?case
  proof (cases j)
    case (Suc k)
    then have "I \<noteq> is ! k" using Cons.prems by (auto simp: nth_mem)
    then show ?thesis using Suc Cons.IH[of k "n + 1"] Cons.prems by (simp add: Let_def)
  qed (simp add: Let_def)
qed simp

lemma count_span_eq:
  assumes "distinct is" "i \<le> j" "j < length is"
  shows "count_span (is ! i) (is ! j) False n is = n + of_nat (Suc (j - i))"
  using assms
proof (induction "is" arbitrary: i j)
  case (Cons I "is")
  show ?case
  proof (cases i)
    case 0
    show ?thesis
    proof (cases j)
      case (Suc k)
      then have "I \<noteq> is ! k" using Cons.prems by (auto simp: nth_mem)
      then show ?thesis
        using 0 Suc Cons.prems count_span_in[of "is" k I "n + 1"] by (simp add: Let_def)
    qed (simp add: 0 Let_def)
  next
    case (Suc i')
    with Cons.prems obtain j' where j: "j = Suc j'" by (cases j) auto
    have "I \<noteq> is ! i'" "I \<noteq> is ! j'"
      using Cons.prems Suc j by (auto simp: nth_mem)
    then show ?thesis
      using Suc j Cons.prems Cons.IH[of i' j'] by (simp add: Let_def)
  qed
qed simp

lemma count_all_eq: "count_all n f = n + of_nat (length (func_insts f))"
proof -
  have "fold (\<lambda>I n. n + 1) is n = n + of_nat (length is)" for "is" :: "addr list" and n :: u32
    by (induction "is" arbitrary: n) simp_all
  then show ?thesis by (simp add: count_all_def)
qed

text \<open>The position of an instruction among the blocks of its function.\<close>

definition position :: "block list \<Rightarrow> addr \<Rightarrow> nat \<Rightarrow> nat \<Rightarrow> bool" where
  "position Bs I b i = (b < length Bs \<and> i < length (binsts (Bs ! b)) \<and> binsts (Bs ! b) ! i = I)"

lemma locate_block_absent:
  "f \<notin> set is \<Longrightarrow> startBBIdx (locate_block f l bb k is sp) = startBBIdx sp
     \<and> startInstIdx (locate_block f l bb k is sp) = startInstIdx sp"
  "l \<notin> set is \<Longrightarrow> endBBIdx (locate_block f l bb k is sp) = endBBIdx sp
     \<and> endInstIdx (locate_block f l bb k is sp) = endInstIdx sp"
  by (induction "is" arbitrary: k sp) (auto simp: Let_def)

lemma locate_block_start:
  "distinct is \<Longrightarrow> i < length is \<Longrightarrow>
     startBBIdx (locate_block (is ! i) l bb k is sp) = bb
     \<and> startInstIdx (locate_block (is ! i) l bb k is sp) = k + of_nat i"
proof (induction "is" arbitrary: i k sp)
  case (Cons I "is")
  show ?case
  proof (cases i)
    case 0
    then show ?thesis using Cons.prems by (simp add: Let_def locate_block_absent(1))
  next
    case (Suc j)
    then have "I \<noteq> is ! j" using Cons.prems by (auto simp: nth_mem)
    then show ?thesis using Suc Cons.prems Cons.IH[of j] by (simp add: Let_def)
  qed
qed simp

lemma locate_block_end:
  "distinct is \<Longrightarrow> i < length is \<Longrightarrow>
     endBBIdx (locate_block f (is ! i) bb k is sp) = bb
     \<and> endInstIdx (locate_block f (is ! i) bb k is sp) = k + of_nat i"
proof (induction "is" arbitrary: i k sp)
  case (Cons I "is")
  show ?case
  proof (cases i)
    case 0
    then show ?thesis using Cons.prems by (simp add: Let_def locate_block_absent(2))
  next
    case (Suc j)
    then have "I \<noteq> is ! j" using Cons.prems by (auto simp: nth_mem)
    then show ?thesis using Suc Cons.prems Cons.IH[of j] by (simp add: Let_def)
  qed
qed simp

lemma locate_blocks_absent:
  "f \<notin> set (concat (map binsts Bs)) \<Longrightarrow>
     startBBIdx (locate_blocks f l bb Bs sp) = startBBIdx sp
     \<and> startInstIdx (locate_blocks f l bb Bs sp) = startInstIdx sp"
  "l \<notin> set (concat (map binsts Bs)) \<Longrightarrow>
     endBBIdx (locate_blocks f l bb Bs sp) = endBBIdx sp
     \<and> endInstIdx (locate_blocks f l bb Bs sp) = endInstIdx sp"
  by (induction Bs arbitrary: bb sp) (auto simp: locate_block_absent)

lemma locate_blocks_start:
  "distinct (concat (map binsts Bs)) \<Longrightarrow> position Bs f b i \<Longrightarrow>
     startBBIdx (locate_blocks f l bb Bs sp) = bb + of_nat b
     \<and> startInstIdx (locate_blocks f l bb Bs sp) = of_nat i"
proof (induction Bs arbitrary: b bb sp)
  case (Cons B Bs)
  show ?case
  proof (cases b)
    case 0
    then have "f = binsts B ! i" "i < length (binsts B)" using Cons.prems by (auto simp: position_def)
    moreover from this have "f \<notin> set (concat (map binsts Bs))" using Cons.prems(1) by (auto simp: disjoint_iff)
    ultimately show ?thesis
      using 0 Cons.prems(1) locate_block_start[of "binsts B" i l bb 0 sp]
      by (simp add: locate_blocks_absent(1))
  next
    case (Suc c)
    then have "position Bs f c i" using Cons.prems(2) by (simp add: position_def)
    then show ?thesis using Suc Cons.IH[of c] Cons.prems(1) by simp
  qed
qed (simp add: position_def)

lemma locate_blocks_end:
  "distinct (concat (map binsts Bs)) \<Longrightarrow> position Bs l b i \<Longrightarrow>
     endBBIdx (locate_blocks f l bb Bs sp) = bb + of_nat b
     \<and> endInstIdx (locate_blocks f l bb Bs sp) = of_nat i"
proof (induction Bs arbitrary: b bb sp)
  case (Cons B Bs)
  show ?case
  proof (cases b)
    case 0
    then have "l = binsts B ! i" "i < length (binsts B)" using Cons.prems by (auto simp: position_def)
    moreover from this have "l \<notin> set (concat (map binsts Bs))" using Cons.prems(1) by (auto simp: disjoint_iff)
    ultimately show ?thesis
      using 0 Cons.prems(1) locate_block_end[of "binsts B" i f bb 0 sp]
      by (simp add: locate_blocks_absent(2))
  next
    case (Suc c)
    then have "position Bs l c i" using Cons.prems(2) by (simp add: position_def)
    then show ?thesis using Suc Cons.IH[of c] Cons.prems(1) by simp
  qed
qed (simp add: position_def)

subsection \<open>The range of a function\<close>

definition range_of :: "(addr \<Rightarrow> bool) \<Rightarrow> addr list \<Rightarrow> (addr \<times> addr) option" where
  "range_of P is = (case filter P is of [] \<Rightarrow> None | I # Is \<Rightarrow> Some (I, last (I # Is)))"

text \<open>Everything selected lies between the ends of the range, which are selected.\<close>

lemma range_of_covers:
  assumes "k < length is" "P (is ! k)"
  shows "\<exists>i j. i \<le> k \<and> k \<le> j \<and> j < length is \<and> range_of P is = Some (is ! i, is ! j)
    \<and> P (is ! i) \<and> P (is ! j)"
  using assms
proof (induction "is" arbitrary: k)
  case (Cons I "is")
  show ?case
  proof (cases "filter P is = []")
    case True
    then have "k = 0"
      using Cons.prems by (cases k) (auto simp: filter_empty_conv)
    with Cons.prems True show ?thesis
      by (intro exI[of _ 0]) (simp add: range_of_def)
  next
    case False
    then obtain k' where k': "k' < length is" "P (is ! k')" "k = 0 \<or> k = Suc k'"
    proof (cases k)
      case 0
      from False obtain x where "x \<in> set is" "P x" by (auto simp: filter_empty_conv)
      with 0 that show ?thesis by (metis in_set_conv_nth)
    next
      case (Suc k')
      with Cons.prems that show ?thesis by auto
    qed
    from Cons.IH[OF k'(1,2)] obtain i j where ij: "i \<le> k'" "k' \<le> j" "j < length is"
        "range_of P is = Some (is ! i, is ! j)" "P (is ! i)" "P (is ! j)" by blast
    have l: "last (filter P is) = is ! j" "hd (filter P is) = is ! i"
      using ij(4) by (auto simp: range_of_def split: list.splits)
    show ?thesis
    proof (cases "P I")
      case True
      then have "range_of P (I # is) = Some (I, is ! j)"
        using False l by (simp add: range_of_def)
      then show ?thesis
        using ij k'(3) True by (intro exI[of _ 0] exI[of _ "Suc j"]) auto
    next
      case False
      then have "k = Suc k'" using Cons.prems(2) k'(3) by auto
      moreover have "range_of P (I # is) = Some (is ! i, is ! j)"
        using False ij(4) by (simp add: range_of_def)
      ultimately show ?thesis
        using ij by (intro exI[of _ "Suc i"] exI[of _ "Suc j"]) auto
    qed
  qed
qed simp

lemma first_last_range:
  "nullptr \<notin> set is \<Longrightarrow> range_of P is =
     (if fst (first_last P is) \<noteq> nullptr \<and> snd (first_last P is) \<noteq> nullptr
      then Some (first_last P is) else None)"
proof -
  assume n: "nullptr \<notin> set is"
  show ?thesis
  proof (cases "filter P is")
    case Nil
    then show ?thesis using first_last_eq[OF n, of P] by (simp add: range_of_def)
  next
    case (Cons I Is)
    then have "I \<in> set is" "last (I # Is) \<in> set is"
      using last_in_set[of "filter P is"] by (auto simp: filter_eq_Cons_iff)
    then have "I \<noteq> nullptr" "last (I # Is) \<noteq> nullptr" using n by metis+
    then show ?thesis using first_last_eq[OF n, of P] Cons by (simp add: range_of_def)
  qed
qed

lemma function_ranges_get:
  assumes "distinct (map faddr (defined_functions m))" "f \<in> set (defined_functions m)"
    "nullptr \<notin> set (func_insts f)"
  shows "map_of (function_ranges m s L counts A) (faddr f) =
     (if faddr f \<in> set A \<and> faddr f \<in> dom (map_of counts)
      then range_of (at_max_level s L) (func_insts f) else None)"
proof -
  let ?f = "function_range s L counts A"
  have other: "map_of (fold ?f fs d) a = map_of d a" if "a \<notin> faddr ` set fs" for fs a d
    using that by (induction fs arbitrary: d) (auto simp: function_range_def split: prod.split)
  have "map_of (fold ?f fs d) (faddr f) =
      (if faddr f \<in> set A \<and> faddr f \<in> dom (map_of counts)
       then range_of (at_max_level s L) (func_insts f) else None)"
    if "distinct (map faddr fs)" "f \<in> set fs" "map_of d (faddr f) = None" for fs d
    using that
  proof (induction fs arbitrary: d)
    case (Cons g fs)
    show ?case
    proof (cases "g = f")
      case True
      then have "faddr f \<notin> faddr ` set fs" using Cons.prems(1) by auto
      then have "map_of (fold ?f (g # fs) d) (faddr f) = map_of (?f f d) (faddr f)"
        using True other by simp
      moreover have "map_of (?f f d) (faddr f) =
          (if faddr f \<in> set A \<and> faddr f \<in> dom (map_of counts)
           then range_of (at_max_level s L) (func_insts f) else None)"
        using Cons.prems(3) by (simp add: function_range_def split_beta first_last_range[OF assms(3)])
      ultimately show ?thesis by (simp only:)
    next
      case False
      then have "faddr g \<noteq> faddr f" using Cons.prems(1,2) by auto
      then have "map_of (?f g d) (faddr f) = None"
        using Cons.prems(3) by (simp add: function_range_def split: prod.split)
      then show ?thesis using Cons.IH[of "?f g d"] Cons.prems False by simp
    qed
  qed simp
  from this[OF assms(1,2)] show ?thesis by (simp add: function_ranges_def)
qed

text \<open>The second computation of the same ends, made for the text above the statistics.\<close>

lemma mark_range_fold:
  "map_of (fold (\<lambda>I d. if I \<in> S then mark_range F I d else d) is d) G =
     (if G = F then
        (case filter (\<lambda>I. I \<in> S) is of
           [] \<Rightarrow> map_of d F
         | I # Is \<Rightarrow> Some (case map_of d F of None \<Rightarrow> I | Some r \<Rightarrow> fst r, last (I # Is)))
      else map_of d G)"
proof (induction "is" arbitrary: d)
  case (Cons I "is")
  then show ?case
    by (cases "map_of d F") (auto simp: mark_range_def dm_get_def split: list.split)
qed simp

lemma earliest_latest_get:
  assumes "distinct (map faddr (defined_functions m))" "f \<in> set (defined_functions m)"
  shows "map_of (earliest_latest m MaxInsts) (faddr f) = range_of (\<lambda>I. I \<in> set MaxInsts) (func_insts f)"
proof -
  let ?f = "\<lambda>f. fold (\<lambda>I d. if I \<in> set MaxInsts then mark_range (faddr f) I d else d) (func_insts f)"
  have other: "map_of (fold ?f fs d) a = map_of d a" if "a \<notin> faddr ` set fs" for fs a d
    using that by (induction fs arbitrary: d) (auto simp: mark_range_fold)
  have "map_of (fold ?f fs d) (faddr f) = range_of (\<lambda>I. I \<in> set MaxInsts) (func_insts f)"
    if "distinct (map faddr fs)" "f \<in> set fs" "map_of d (faddr f) = None" for fs d
    using that
  proof (induction fs arbitrary: d)
    case (Cons g fs)
    show ?case
    proof (cases "g = f")
      case True
      then have "faddr f \<notin> faddr ` set fs" using Cons.prems(1) by auto
      then have "map_of (fold ?f (g # fs) d) (faddr f) = map_of (?f f d) (faddr f)"
        using True other by simp
      then show ?thesis
        using Cons.prems(3) by (simp add: mark_range_fold range_of_def split: list.split)
    next
      case False
      then have "faddr g \<noteq> faddr f" using Cons.prems(1,2) by auto
      then have "map_of (?f g d) (faddr f) = None"
        using Cons.prems(3) by (simp add: mark_range_fold)
      then show ?thesis using Cons.IH[of "?f g d"] Cons.prems False by simp
    qed
  qed simp
  from this[OF assms] show ?thesis by (simp add: earliest_latest_def)
qed

lemma max_insts_at_level:
  assumes "distinct (map fst (ValueLevel s))" "is_inst m I"
  shows "I \<in> set (MaxLevelInstructions (collect_max m s L)) \<longleftrightarrow> at_max_level s L I"
proof -
  have "I \<in> set (MaxLevelInstructions (collect_max m s L)) \<longleftrightarrow>
      I \<in> set (TaintedValues s) \<and> (I, L) \<in> set (ValueLevel s)"
    using assms(2) unfolding collect_max_insts max_entry_def set_map set_filter by force
  moreover have "(I, L) \<in> set (ValueLevel s) \<longleftrightarrow> map_of (ValueLevel s) I = Some L"
    by (rule map_of_eq_Some_iff[OF assms(1), symmetric])
  moreover have "at_max_level s L I \<longleftrightarrow> I \<in> set (TaintedValues s) \<and> map_of (ValueLevel s) I = Some L"
    by (cases "map_of (ValueLevel s) I") (simp_all add: at_max_level_def dm_get_def dom_def)
  ultimately show ?thesis by (simp only:)
qed

subsection \<open>Properties\<close>

text \<open>
  C32: The largest level. \<open>maxLevel\<close> is at least the level of every tainted value that has
  one, and is the level of one of them unless it is still the initial \<open>INT_MIN\<close>.
\<close>

theorem largest_level:
  "(\<forall>(V, l) \<in> set (ValueLevel s). V \<in> set (TaintedValues s) \<longrightarrow> l \<le> max_level s)
   \<and> (max_level s = INT_MIN \<or> (\<exists>V \<in> set (TaintedValues s). (V, max_level s) \<in> set (ValueLevel s)))"
  using max_level_upper[of _ _ s] max_level_attained[of s] by blast

lemma largest_level_witness:
  "max_level (init_state\<lparr>ValueLevel := [(4, 9), (3, 2)], TaintedValues := [3]\<rparr>) = 2"
  using largest_level[of "init_state\<lparr>ValueLevel := [(4, 9), (3, 2)], TaintedValues := [3]\<rparr>"]
  by (auto simp: INT_MIN_def)

text \<open>
  C33: The span of a function covers its most deeply tainted instructions. When an instruction
  of a defined function is one of the values with the largest level, the function has a range,
  its ends are such instructions too, and the instruction stands between them.
\<close>

theorem span_covers:
  assumes "distinct (map faddr (defined_functions m))" "f \<in> set (defined_functions m)"
    "faddr f \<noteq> nullptr" "nullptr \<notin> set (func_insts f)" "distinct (map fst (ValueLevel s))"
    "\<And>I. I \<in> set (func_insts f) \<Longrightarrow> is_inst m I \<and> func_of_value m I = faddr f"
    "k < length (func_insts f)" "func_insts f ! k \<in> set (MaxLevelInstructions (collect_max m s L))"
  shows "\<exists>i j. i \<le> k \<and> k \<le> j \<and> j < length (func_insts f)
     \<and> map_of (function_ranges m s L (MaxLevelCountPerFunction (collect_max m s L))
           (visited_functions m s)) (faddr f) = Some (func_insts f ! i, func_insts f ! j)
     \<and> func_insts f ! i \<in> set (MaxLevelInstructions (collect_max m s L))
     \<and> func_insts f ! j \<in> set (MaxLevelInstructions (collect_max m s L))"
proof -
  let ?is = "func_insts f" and ?counts = "MaxLevelCountPerFunction (collect_max m s L)"
  have at: "I \<in> set (MaxLevelInstructions (collect_max m s L)) \<longleftrightarrow> at_max_level s L I"
    if "I \<in> set ?is" for I
    using max_insts_at_level[OF assms(5)] assms(6)[OF that] by blast
  have k: "?is ! k \<in> set ?is" using assms(7) by simp
  have "faddr f \<in> fst ` set ?counts"
  proof -
    have "(?is ! k, L) \<in> set (ValueLevel s)" "max_entry s L (?is ! k, L)"
      using assms(8) by (auto simp: collect_max_insts max_entry_def)
    then have "func_of_value m (fst (?is ! k, L)) \<in>
        func_of_value m ` fst ` {e \<in> set (ValueLevel s). max_entry s L e}" by blast
    then show ?thesis using assms(3,6) k by (auto simp: collect_max_dom)
  qed
  then have "faddr f \<in> dom (map_of ?counts)" "faddr f \<in> set (visited_functions m s)"
    using subsetD[OF counts_visited] by (simp_all add: dom_map_of_conv_image_fst)
  moreover obtain i j where "i \<le> k" "k \<le> j" "j < length ?is"
      "range_of (at_max_level s L) ?is = Some (?is ! i, ?is ! j)"
      "at_max_level s L (?is ! i)" "at_max_level s L (?is ! j)"
    using range_of_covers[OF assms(7), of "at_max_level s L"] at[OF k] assms(8) by blast
  ultimately show ?thesis
    using at function_ranges_get[OF assms(1,2,4)]
    by (intro exI[of _ i] exI[of _ j]) (simp add: nth_mem)
qed

lemma ex_returns_insts:
  "I \<in> set (func_insts (hd (funcs ex_returns))) \<Longrightarrow> is_inst ex_returns I \<and> func_of_value ex_returns I = 1"
  by (auto simp: ex_returns_def ex_val_def ex_inst_def func_insts_def is_inst_def inst_of_def
      kind_of_def vinfo_of_def func_of_value_def)

definition ex_state :: tstate where
  "ex_state = set_level 14 0 (taint_push 14 (set_level 12 0 (taint_push 12 init_state)))"

lemma ex_state_facts:
  "hd (funcs ex_returns) \<in> set (defined_functions ex_returns)"
  "distinct (map faddr (defined_functions ex_returns))"
  "func_insts (hd (funcs ex_returns)) = [11, 12, 13, 14]" "faddr (hd (funcs ex_returns)) = 1"
  "distinct (map fst (ValueLevel ex_state))"
  "MaxLevelInstructions (collect_max ex_returns ex_state 0) = [12, 14]"
  by code_simp+

lemma span_covers_witness:
  "map_of (function_ranges ex_returns ex_state 0 (MaxLevelCountPerFunction (collect_max ex_returns ex_state 0))
     (visited_functions ex_returns ex_state)) 1 \<noteq> None"
  using span_covers[of ex_returns "hd (funcs ex_returns)" ex_state 1 0] ex_returns_insts
  by (auto simp: ex_state_facts)

text \<open>
  C35: The coordinates of a span line. When the ends of the range stand at instruction \<open>i\<close> of
  block \<open>b\<close> and instruction \<open>j\<close> of block \<open>c\<close> of the function, counted from 0, these are the
  four numbers printed (modulo \<open>2 ^ 32\<close>).
\<close>

theorem span_coordinates:
  assumes "func_of m F = Some f" "distinct (func_insts f)"
    "position (fblocks f) firstI b i" "position (fblocks f) lastI c j"
  shows "span_of m F (firstI, lastI) =
     \<lparr>startBBIdx = of_nat b, startInstIdx = of_nat i, endBBIdx = of_nat c, endInstIdx = of_nat j\<rparr>"
proof -
  let ?sp = "span_of m F (firstI, lastI)"
  have d: "distinct (concat (map binsts (fblocks f)))" using assms(2) by (simp add: func_insts_def)
  have "startBBIdx ?sp = of_nat b" "startInstIdx ?sp = of_nat i" "endBBIdx ?sp = of_nat c"
    "endInstIdx ?sp = of_nat j"
    using locate_blocks_start[OF d assms(3)] locate_blocks_end[OF d assms(4)]
    by (simp_all add: span_of_def assms(1))
  then show ?thesis by (intro span.equality) simp_all
qed

lemma span_coordinates_witness:
  "span_of ex_returns 1 (12, 14) = \<lparr>startBBIdx = 0, startInstIdx = 1, endBBIdx = 0, endInstIdx = 3\<rparr>"
proof -
  have "func_of ex_returns 1 = Some (hd (funcs ex_returns))"
    "fblocks (hd (funcs ex_returns)) = [\<lparr>baddr = 10, binsts = [11, 12, 13, 14]\<rparr>]" by code_simp+
  with span_coordinates[of ex_returns 1 "hd (funcs ex_returns)" 12 0 1 14 0 3] show ?thesis
    by (simp add: ex_state_facts position_def)
qed

text \<open>
  C36: The numbers of functions add up. The functions with a range and those listed with their
  full span are together the visited ones, and so are, when only arguments have the largest
  level, the functions counted at it and the others. In particular both subtractions in the
  statistics, of \<open>size_t\<close> values, give the number of lines of the second list.
\<close>

theorem function_numbers:
  "(let ranges = function_ranges m s L counts (visited_functions m s)
    in length ranges + length (filter (\<lambda>F. \<not> dm_count ranges F) (visited_functions m s))
         = length (visited_functions m s))
   \<and> (let counts = MaxLevelCountPerFunction (collect_max m s L)
      in length counts + length (filter (\<lambda>F. \<not> dm_count counts F) (visited_functions m s))
           = length (visited_functions m s))"
  unfolding Let_def
  using keys_length_rest[OF function_ranges_dom(3,1) visited_functions_set(2)]
    keys_length_rest[OF collect_max_distinct counts_visited visited_functions_set(2)]
  by blast

text \<open>
  C37: The two computations of the ends agree. The earliest and latest instruction printed for
  a defined function are the first and last of the range the counts and spans use.
\<close>

theorem ends_agree:
  assumes "distinct (map faddr (defined_functions m))" "f \<in> set (defined_functions m)"
    "faddr f \<noteq> nullptr" "nullptr \<notin> set (func_insts f)" "distinct (map fst (ValueLevel s))"
    "\<And>I. I \<in> set (func_insts f) \<Longrightarrow> is_inst m I \<and> func_of_value m I = faddr f"
  shows "map_of (earliest_latest m (MaxLevelInstructions (collect_max m s L))) (faddr f) =
     map_of (function_ranges m s L (MaxLevelCountPerFunction (collect_max m s L))
       (visited_functions m s)) (faddr f)"
proof -
  let ?is = "func_insts f" and ?M = "MaxLevelInstructions (collect_max m s L)"
    and ?counts = "MaxLevelCountPerFunction (collect_max m s L)"
  have at: "I \<in> set ?M \<longleftrightarrow> at_max_level s L I" if "I \<in> set ?is" for I
    using max_insts_at_level[OF assms(5)] assms(6)[OF that] by blast
  have r: "range_of (\<lambda>I. I \<in> set ?M) ?is = range_of (at_max_level s L) ?is"
    unfolding range_of_def using at by (simp cong: filter_cong)
  have "faddr f \<in> set (visited_functions m s) \<and> faddr f \<in> dom (map_of ?counts)"
    if "range_of (\<lambda>I. I \<in> set ?M) ?is \<noteq> None"
  proof -
    from that have "filter (\<lambda>I. I \<in> set ?M) ?is \<noteq> []" by (auto simp: range_of_def)
    then obtain I where I: "I \<in> set ?is" "I \<in> set ?M" by (auto simp: filter_empty_conv)
    then have "(I, L) \<in> set (ValueLevel s)" "max_entry s L (I, L)"
      by (auto simp: collect_max_insts max_entry_def)
    then have "func_of_value m (fst (I, L)) \<in>
        func_of_value m ` fst ` {e \<in> set (ValueLevel s). max_entry s L e}" by blast
    then have "faddr f \<in> fst ` set ?counts"
      using assms(3,6) I by (auto simp: collect_max_dom)
    then show ?thesis using subsetD[OF counts_visited] by (simp add: dom_map_of_conv_image_fst)
  qed
  then show ?thesis
    unfolding earliest_latest_get[OF assms(1,2)] function_ranges_get[OF assms(1,2,4)] r
    by (cases "range_of (at_max_level s L) ?is") simp_all
qed

lemma ends_agree_witness:
  "map_of (earliest_latest ex_returns [12, 14]) 1 =
     map_of (function_ranges ex_returns ex_state 0 (MaxLevelCountPerFunction (collect_max ex_returns ex_state 0))
       (visited_functions ex_returns ex_state)) 1"
  using ends_agree[of ex_returns "hd (funcs ex_returns)" ex_state 0] ex_returns_insts
  by (simp add: ex_state_facts)

end
