(* ===== verification/Typing.thy ===== *)
theory Typing
  imports Invariants Report_Facts
begin

text \<open>
  What kind of thing each element of the final state is. The tests of the code before it taints
  or records (casts to instructions, bounds of argument lists, declarations) leave only
  instructions and parameters of functions with a body as tainted values. So the two lists that
  the statistics sort the values of a level into hold all of them, each once.
\<close>

subsection \<open>The facts\<close>

definition well_typed :: "pass_params \<Rightarrow> llmodule \<Rightarrow> fact \<Rightarrow> bool" where
  "well_typed cfg m f = (case f of
     Value V \<Rightarrow> is_inst m V \<or> (InterprocMode cfg \<and> (\<exists>F. \<not> is_declaration m F \<and> V \<in> set (args_of m F)))
   | Pointer P \<Rightarrow> True
   | Returns F \<Rightarrow> \<exists>R v. as_ret m R = Some v \<and> func_of_inst m R = F
   | Param F i \<Rightarrow> \<exists>I A. is_inst m I \<and> func_of_inst m I = F \<and> is_ptr_arg m A \<and> arg_no m A = i)"

lemma source_is_inst: "source cfg m I CI \<Longrightarrow> is_inst m I"
  by (cases "inst_of m I") (auto simp: source_def operands_of_def is_inst_def)

lemma origin_is_param: "getPointerParameterOrigin m p \<noteq> nullptr \<Longrightarrow> is_ptr_arg m (getPointerParameterOrigin m p)"
  by (rule from_param_is_param[OF origin_sound[OF refl]])

lemma load_is_inst: "reads_pointer m I P \<Longrightarrow> is_inst m I"
  by (rule op_is_inst) (auto simp: reads_pointer_def as_load_def split: option.splits)

lemma flows_typed: "flows cfg m f \<Longrightarrow> well_typed cfg m f"
proof (induction rule: flows.induct)
  case (src_param I CI v p)
  then show ?case unfolding well_typed_def fact.case by (blast intro: source_is_inst origin_is_param)
next
  case (store_param V U p)
  then show ?case unfolding well_typed_def fact.case by (blast intro: store_is_inst origin_is_param)
next
  case (passed F j I cv args)
  then show ?case unfolding well_typed_def fact.case by (blast intro: call_is_inst origin_is_param)
qed (auto simp: well_typed_def intro: source_is_inst call_is_inst load_is_inst)

lemma flows_value_inst: "flows cfg m (Value V) \<Longrightarrow> \<not> InterprocMode cfg \<Longrightarrow> is_inst m V"
  using flows_typed[of cfg m "Value V"] by (simp add: well_typed_def)

subsection \<open>The values of a level\<close>

lemma inst_no_arg: "is_inst m V \<Longrightarrow> \<not> is_arg m V"
  by (auto simp: is_inst_def inst_of_def is_arg_def split: vkind.splits)

text \<open>The entries of a level that satisfy \<open>P\<close>, when no key occurs twice.\<close>

lemma level_entries:
  assumes "keys_distinct (ValueLevel s)"
  shows "set (map fst (filter (\<lambda>e. max_entry s L e \<and> P (fst e)) (ValueLevel s))) =
      {V \<in> set (TaintedValues s). map_of (ValueLevel s) V = Some L \<and> P V}"
    and "distinct (map fst (filter (\<lambda>e. max_entry s L e \<and> P (fst e)) (ValueLevel s)))"
proof -
  have "(V, L) \<in> set (ValueLevel s) \<longleftrightarrow> map_of (ValueLevel s) V = Some L" for V
    using assms by (auto simp: keys_distinct_def intro: map_of_is_SomeI map_of_SomeD)
  then show "set (map fst (filter (\<lambda>e. max_entry s L e \<and> P (fst e)) (ValueLevel s))) =
      {V \<in> set (TaintedValues s). map_of (ValueLevel s) V = Some L \<and> P V}"
    by (force simp: max_entry_def)
  show "distinct (map fst (filter (\<lambda>e. max_entry s L e \<and> P (fst e)) (ValueLevel s)))"
    using assms unfolding keys_distinct_def by (rule distinct_map_filter)
qed

subsection \<open>Properties\<close>

text \<open>
  C14: What is tainted, recorded and counted. Every tainted value is an instruction, or, when
  calls are followed, a parameter of a function with a body. A function recorded as returning
  taint has a return instruction with a value, and a recorded parameter is the position of a
  pointer parameter, recorded for the function of an instruction. So the statistics miss
  nothing that has the level asked for: their list of instructions holds exactly the tainted
  instructions of that level, their list of arguments exactly the tainted parameters, and
  together they hold each of them once, as many as there are tainted values of the level. (The
  module gives the kind of an argument to the parameters of its functions.)
\<close>

theorem run_well_typed:
  assumes "\<And>F A. A \<in> set (args_of m F) \<Longrightarrow> \<exists>G n. kind_of m A = VArgument G n"
  shows "(\<forall>V \<in> set (TaintedValues (run cfg m)). is_inst m V
       \<or> (InterprocMode cfg \<and> (\<exists>F. \<not> is_declaration m F \<and> V \<in> set (args_of m F))))
     \<and> (\<forall>F \<in> set (FunctionsReturningTaint (run cfg m)). \<exists>R v. as_ret m R = Some v \<and> func_of_inst m R = F)
     \<and> (\<forall>(F, i) \<in> ptr_params (run cfg m). \<exists>I A. is_inst m I \<and> func_of_inst m I = F
          \<and> is_ptr_arg m A \<and> arg_no m A = i)
     \<and> set (MaxLevelInstructions (collect_max m (run cfg m) L)) =
         {V \<in> set (TaintedValues (run cfg m)). map_of (ValueLevel (run cfg m)) V = Some L \<and> is_inst m V}
     \<and> set (MaxLevelArguments (collect_max m (run cfg m) L)) =
         {V \<in> set (TaintedValues (run cfg m)). map_of (ValueLevel (run cfg m)) V = Some L \<and> \<not> is_inst m V}
     \<and> length (MaxLevelInstructions (collect_max m (run cfg m) L))
         + length (MaxLevelArguments (collect_max m (run cfg m) L)) =
         card {V \<in> set (TaintedValues (run cfg m)). map_of (ValueLevel (run cfg m)) V = Some L}"
proof -
  let ?s = "run cfg m"
  let ?r = "collect_max m ?s L"
  have typed: "flows cfg m f \<Longrightarrow> well_typed cfg m f" for f by (rule flows_typed)
  have V: "is_inst m V \<or> (InterprocMode cfg \<and> (\<exists>F. \<not> is_declaration m F \<and> V \<in> set (args_of m F)))"
    if "V \<in> set (TaintedValues ?s)" for V
    using typed[OF soundD(1)[OF run_sound that]] by (simp add: well_typed_def)
  have F: "\<exists>R v. as_ret m R = Some v \<and> func_of_inst m R = F" if "F \<in> set (FunctionsReturningTaint ?s)" for F
    using typed[OF soundD(4)[OF run_sound that]] by (simp add: well_typed_def)
  have i: "\<exists>I A. is_inst m I \<and> func_of_inst m I = F \<and> is_ptr_arg m A \<and> arg_no m A = i"
    if "(F, i) \<in> ptr_params ?s" for F i
    using typed[OF sound_ptr_params[OF run_sound that]] by (simp add: well_typed_def)
  have split: "is_arg m V \<longleftrightarrow> \<not> is_inst m V" if "V \<in> set (TaintedValues ?s)" for V
    using V[OF that] assms inst_no_arg by (force simp: is_arg_def)
  have keys: "keys_distinct (ValueLevel ?s)"
    using valid.I_run[OF valid_init, of cfg m] by (simp add: valid_state_def)
  note entries = level_entries[OF keys, of L]
  have I: "set (MaxLevelInstructions ?r) =
      {V \<in> set (TaintedValues ?s). map_of (ValueLevel ?s) V = Some L \<and> is_inst m V}"
    unfolding collect_max_insts by (rule entries(1))
  have A: "set (MaxLevelArguments ?r) =
      {V \<in> set (TaintedValues ?s). map_of (ValueLevel ?s) V = Some L \<and> \<not> is_inst m V}"
    unfolding collect_max_args entries(1) using split by blast
  have "distinct (MaxLevelInstructions ?r @ MaxLevelArguments ?r)"
    using I A entries(2) by (auto simp: collect_max_insts collect_max_args)
  then have "length (MaxLevelInstructions ?r) + length (MaxLevelArguments ?r) =
      card (set (MaxLevelInstructions ?r @ MaxLevelArguments ?r))"
    by (metis distinct_card length_append)
  also have "set (MaxLevelInstructions ?r @ MaxLevelArguments ?r) =
      {V \<in> set (TaintedValues ?s). map_of (ValueLevel ?s) V = Some L}"
    unfolding set_append I A by blast
  finally show ?thesis using V F i I A by blast
qed

lemma run_well_typed_witness:
  "set (MaxLevelArguments (collect_max ex_calls (run ex_calls_cfg ex_calls) (- 1))) = {5}
   \<and> length (MaxLevelInstructions (collect_max ex_calls (run ex_calls_cfg ex_calls) (- 1))) + 1 =
     card {V \<in> set (TaintedValues (run ex_calls_cfg ex_calls)).
       map_of (ValueLevel (run ex_calls_cfg ex_calls)) V = Some (- 1)}"
proof -
  have args: "\<exists>G n. kind_of ex_calls A = VArgument G n" if "A \<in> set (args_of ex_calls F)" for A F
    using that
    by (auto simp: args_of_def func_of_def ex_calls_def kind_of_def vinfo_of_def ex_val_def split: if_splits)
  have "MaxLevelArguments (collect_max ex_calls (run ex_calls_cfg ex_calls) (- 1)) = [5]" by code_simp
  with run_well_typed[OF args, where cfg = ex_calls_cfg and L = "- 1"] show ?thesis by simp
qed

end
