(* ===== verification/Reachability.thy ===== *)
theory Reachability
  imports Closure
begin

text \<open>
  What emptying the worklist computes: the values reachable from those on it, in a graph over
  the values of the module that does not depend on the state. The worklist, the order of the
  users and everything printed drop out.
\<close>

subsection \<open>The graph\<close>

text \<open>A use as an argument that taints a parameter, given the map of function pointers.\<close>

definition enters :: "pass_params \<Rightarrow> llmodule \<Rightarrow> (addr, addr list) dmap \<Rightarrow> addr \<Rightarrow> addr \<Rightarrow> bool" where
  "enters cfg m fpt V W = (\<exists>C F cv args i T. C \<in> set (users_of m V) \<and> InterprocMode cfg
     \<and> as_call m C = Some (F, cv, args) \<and> first_arg V args = Some i
     \<and> (if F \<noteq> nullptr then T = F else IndirectCallMode cfg \<and> T \<in> set (resolve_targets m fpt cv))
     \<and> \<not> is_declaration m T \<and> i < length (args_of m T) \<and> W = args_of m T ! i)"

lemma entersI:
  assumes "C \<in> set (users_of m V)" "InterprocMode cfg" "as_call m C = Some (F, cv, args)"
    "first_arg V args = Some i"
    "if F \<noteq> nullptr then T = F else IndirectCallMode cfg \<and> T \<in> set (resolve_targets m fpt cv)"
    "\<not> is_declaration m T" "i < length (args_of m T)"
  shows "enters cfg m fpt V (args_of m T ! i)"
  using assms unfolding enters_def by blast

definition flow_step :: "pass_params \<Rightarrow> llmodule \<Rightarrow> (addr, addr list) dmap \<Rightarrow> addr \<Rightarrow> addr \<Rightarrow> bool" where
  "flow_step cfg m fpt V W = (marks m V W \<or> enters cfg m fpt V W)"

subsection \<open>One value taints its successors at most\<close>

lemma taints_targets:
  "set (TaintedValues (fold (indirect_target cfg m V C i) Ts s)) \<subseteq>
     set (TaintedValues s) \<union>
       {args_of m T ! i | T. T \<in> set Ts \<and> \<not> is_declaration m T \<and> i < length (args_of m T)}"
proof (induction Ts arbitrary: s)
  case (Cons T Ts)
  have "set (TaintedValues (indirect_target cfg m V C i T s)) \<subseteq> set (TaintedValues s) \<union>
      {W. W = args_of m T ! i \<and> \<not> is_declaration m T \<and> i < length (args_of m T)}"
    by (auto simp: indirect_target_def Let_def simp del: append.simps)
  with Cons[of "indirect_target cfg m V C i T s"] show ?case by auto
qed simp

lemma taints_call:
  assumes "C \<in> set (users_of m V)"
  shows "set (TaintedValues (call_sink cfg m V C s)) \<subseteq>
     set (TaintedValues s) \<union> Collect (enters cfg m (FunctionPointerTargets s) V)"
proof
  fix W assume W: "W \<in> set (TaintedValues (call_sink cfg m V C s))"
  show "W \<in> set (TaintedValues s) \<union> Collect (enters cfg m (FunctionPointerTargets s) V)"
  proof (rule ccontr)
    assume new: "W \<notin> set (TaintedValues s) \<union> Collect (enters cfg m (FunctionPointerTargets s) V)"
    then obtain F cv args i where c: "as_call m C = Some (F, cv, args)" "first_arg V args = Some i"
      using W by (auto simp: call_sink_def split: option.splits)
    have no: "W \<notin> set (TaintedValues s)"
      "\<not> enters cfg m (FunctionPointerTargets s) V W" using new by auto
    show False
    proof (cases "F \<noteq> nullptr")
      case True
      then have "InterprocMode cfg \<and> \<not> is_declaration m F \<and> i < length (args_of m F) \<and> W = args_of m F ! i"
        using W no(1) c by (auto simp: call_sink_def call_direct_def Let_def simp del: append.simps
            split: if_splits)
      then have "enters cfg m (FunctionPointerTargets s) V W"
        using entersI[OF assms _ c, of cfg F] True by simp
      with no(2) show False ..
    next
      case False
      let ?Ts = "resolve_targets m (FunctionPointerTargets s) cv"
      have "IndirectCallMode cfg \<and> InterprocMode cfg \<and> (\<exists>e. W \<in> set (TaintedValues
          (fold (indirect_target cfg m V C i) ?Ts (emit INDIRECT C e s))))"
        using W no(1) c False by (auto simp: call_sink_def call_indirect_def Let_def
            simp del: append.simps split: if_splits)
      then have "\<exists>T \<in> set ?Ts. \<not> is_declaration m T \<and> i < length (args_of m T) \<and> W = args_of m T ! i"
          "IndirectCallMode cfg" "InterprocMode cfg"
        using taints_targets[of cfg m V C i ?Ts] no(1) by fastforce+
      then have "enters cfg m (FunctionPointerTargets s) V W"
        using entersI[OF assms _ c, of cfg _ "FunctionPointerTargets s"] False by auto
      with no(2) show False ..
    qed
  qed
qed

lemma use_store_taints: "TaintedValues (fst (use_store cfg m S p s)) = TaintedValues s"
  by (auto simp: use_store_def Let_def simp del: append.simps split: option.split)

lemma use_store_goes_on:
  "snd (use_store cfg m S p s) \<Longrightarrow>
     as_global m (strip m p) = None \<and> getPointerParameterOrigin m p = nullptr"
  by (auto simp: use_store_def Let_def simp del: append.simps split: option.splits if_splits)

lemma propagate_taints: "set (TaintedValues (propagate cfg m V U s)) \<subseteq> insert U (set (TaintedValues s))"
  by (auto simp: propagate_def Let_def simp del: append.simps)

lemma taints_use:
  assumes "U \<in> set (users_of m V)"
  shows "set (TaintedValues (forward_use cfg m V U s)) \<subseteq>
     set (TaintedValues s) \<union> Collect (flow_step cfg m (FunctionPointerTargets s) V)"
proof (cases "is_inst m U")
  case True
  let ?s0 = "emit_if (Verbose cfg) VERBOSE U (''  [USER] Processing use: '' @ getValueName m U) s"
  let ?s1 = "call_sink cfg m V U ?s0" and ?N = "Collect (flow_step cfg m (FunctionPointerTargets s) V)"
  have 1: "set (TaintedValues ?s1) \<subseteq> set (TaintedValues s) \<union> ?N"
    using taints_call[OF assms, of cfg ?s0] by (auto simp: flow_step_def)
  have 2: "set (TaintedValues (propagate cfg m V U t)) \<subseteq> set (TaintedValues s) \<union> ?N"
    if "set (TaintedValues t) \<subseteq> set (TaintedValues s) \<union> ?N" "marks m V U" for t
    using that propagate_taints[of cfg m V U t] by (auto simp: flow_step_def)
  show ?thesis
  proof (cases "as_ret m U = Some V")
    case True
    then show ?thesis
      using \<open>is_inst m U\<close> 1 by (simp add: forward_use_def use_return_def Let_def del: append.simps)
  next
    case noret: False
    show ?thesis
    proof (cases "\<exists>p. as_store m U = Some (V, p)")
      case True
      then obtain p where p: "as_store m U = Some (V, p)" by blast
      obtain s2 on where us: "use_store cfg m U p ?s1 = (s2, on)" by fastforce
      have "marks m V U" if on
        using use_store_goes_on[of cfg m U p ?s1] us that p assms \<open>is_inst m U\<close> noret
        by (simp add: marks_def local_store_def)
      moreover have "set (TaintedValues s2) \<subseteq> set (TaintedValues s) \<union> ?N"
        using use_store_taints[of cfg m U p ?s1] us 1 by simp
      ultimately show ?thesis
        using \<open>is_inst m U\<close> noret p us 2[of s2] by (simp add: forward_use_def Let_def del: append.simps)
    next
      case False
      then have "marks m V U" using assms \<open>is_inst m U\<close> noret by (simp add: marks_def local_store_def)
      with 2[OF 1] show ?thesis
        using \<open>is_inst m U\<close> noret False
        by (auto simp: forward_use_def Let_def simp del: append.simps split: option.split)
    qed
  qed
qed (simp add: forward_use_def)

lemma taints_value:
  "set (TaintedValues (process_value cfg m V s)) \<subseteq>
     set (TaintedValues s) \<union> Collect (flow_step cfg m (FunctionPointerTargets s) V)"
proof -
  have "set (TaintedValues (fold (forward_use cfg m V) us s)) \<subseteq>
      set (TaintedValues s) \<union> Collect (flow_step cfg m (FunctionPointerTargets s) V)"
    if "set us \<subseteq> set (users_of m V)" for us s
    using that
  proof (induction us arbitrary: s)
    case (Cons U us)
    have "FunctionPointerTargets (forward_use cfg m V U s) = FunctionPointerTargets s"
      using pushes_forward_use[of s cfg m V U] by (simp add: pushes_def)
    with Cons.IH[of "forward_use cfg m V U s"] Cons.prems taints_use[of U m V cfg s] show ?case
      by auto
  qed simp
  from this[of "getSortedUsers m V" "emit t V tx s" for t tx] show ?thesis
    unfolding process_value_def by (cases "users_of m V = []") (simp_all del: append.simps)
qed

subsection \<open>The worklist computes reachability\<close>

lemma step_closed:
  "closed_value cfg m s V \<Longrightarrow> flow_step cfg m (FunctionPointerTargets s) V W \<Longrightarrow>
     W \<in> set (TaintedValues s)"
  unfolding flow_step_def
proof (elim disjE)
  assume c: "closed_value cfg m s V"
  show "W \<in> set (TaintedValues s)" if w: "marks m V W"
  proof -
    have "closed_use cfg m s V W" using c w by (simp add: closed_value_def marks_def local_store_def)
    then show ?thesis
      using w by (cases "as_store m W") (auto simp: closed_use_def store_closed_def marks_def local_store_def split: if_splits)
  qed
  assume "enters cfg m (FunctionPointerTargets s) V W"
  then obtain C F cv args i T where e: "C \<in> set (users_of m V)" "InterprocMode cfg"
    "as_call m C = Some (F, cv, args)" "first_arg V args = Some i"
    "if F \<noteq> nullptr then T = F else IndirectCallMode cfg \<and> T \<in> set (resolve_targets m (FunctionPointerTargets s) cv)"
    "\<not> is_declaration m T" "i < length (args_of m T)" "W = args_of m T ! i"
    unfolding enters_def by blast
  have "call_closed cfg m s V C"
    using c e(1) call_is_inst[OF e(3)] by (simp add: closed_value_def closed_use_def)
  moreover have "T \<in> set (callees cfg m s F cv)"
    using e(5) by (auto simp: callees_def split: if_splits)
  ultimately show "W \<in> set (TaintedValues s)"
    using e unfolding call_closed_def by blast
qed

definition reaches :: "pass_params \<Rightarrow> llmodule \<Rightarrow> (addr, addr list) dmap \<Rightarrow> addr set \<Rightarrow> addr set" where
  "reaches cfg m fpt A = {W. \<exists>V \<in> A. (flow_step cfg m fpt)\<^sup>*\<^sup>* V W}"

lemma drain_reaches:
  assumes "pending cfg m s" "set (Worklist s) \<subseteq> set (TaintedValues s)"
  shows "set (TaintedValues (drain cfg m s)) =
     reaches cfg m (FunctionPointerTargets s) (set (TaintedValues s))"
proof
  let ?F = "FunctionPointerTargets s" and ?R = "reaches cfg m (FunctionPointerTargets s) (set (TaintedValues s))"
  let ?I = "\<lambda>t. FunctionPointerTargets t = ?F \<and> set (TaintedValues t) \<subseteq> ?R \<and> set (Worklist t) \<subseteq> ?R"
  have step: "W \<in> ?R" if "V \<in> ?R" "flow_step cfg m ?F V W" for V W
    using that unfolding reaches_def by (auto intro: rtranclp.rtrancl_into_rtrancl)
  have "?I (drain cfg m s)"
  proof (rule drain_invariant[where I = ?I])
    have "set (TaintedValues s) \<subseteq> ?R" unfolding reaches_def by auto
    then show "?I s" using assms(2) by blast
  next
    fix t :: tstate assume I: "?I t" and w: "Worklist t \<noteq> []"
    let ?V = "hd (Worklist t)" and ?p = "pop_worklist t"
    have V: "?V \<in> ?R" and tl: "set (tl (Worklist t)) \<subseteq> ?R"
      using I w by (cases "Worklist t"; auto)+
    have 1: "set (TaintedValues (process_value cfg m ?V ?p)) \<subseteq> ?R"
      using taints_value[of cfg m ?V ?p] I step[OF V] by auto
    have "FunctionPointerTargets (process_value cfg m ?V ?p) = ?F"
      using pushes_process_value[of ?p cfg m ?V] I by (simp add: pushes_def)
    moreover have "set (Worklist (process_value cfg m ?V ?p)) \<subseteq> ?R"
      using growsD(9)[OF advances_grows[OF advances_process_value[of m ?p cfg ?V]]] 1 tl by auto
    ultimately show "?I (process_value cfg m ?V ?p)" using 1 by blast
  qed
  then show "set (TaintedValues (drain cfg m s)) \<subseteq> ?R" by blast
  have F: "FunctionPointerTargets (drain cfg m s) = ?F" using \<open>?I (drain cfg m s)\<close> by blast
  show "?R \<subseteq> set (TaintedValues (drain cfg m s))"
  proof
    fix W assume "W \<in> ?R"
    then obtain V where V: "V \<in> set (TaintedValues s)" and r: "(flow_step cfg m ?F)\<^sup>*\<^sup>* V W"
      unfolding reaches_def by blast
    from r show "W \<in> set (TaintedValues (drain cfg m s))"
    proof (induction rule: rtranclp_induct)
      case base
      show ?case using V growsD(1)[OF advances_grows[OF advances_drain[of m s cfg]]] by blast
    next
      case (step U W)
      have "closed_value cfg m (drain cfg m s) U"
        using pending_drain[OF assms(1)] step.IH by (simp add: pending_def)
      from step_closed[OF this] step.hyps(2) F show ?case by simp
    qed
  qed
qed

subsection \<open>Properties\<close>

text \<open>
  C40: Emptying the worklist is graph reachability. When every tainted value is queued, as
  after the search, the values tainted when the worklist is empty are exactly those reachable
  from them by \<open>flow_step\<close>: by uses that taint the user, and into the parameter at the first
  position a value is passed at, when calls are followed. In particular the order in which
  values are queued and taken does not matter.
\<close>

theorem drain_reachability:
  assumes "set (Worklist s) = set (TaintedValues s)"
  shows "set (TaintedValues (drain cfg m s)) =
     {W. \<exists>V \<in> set (TaintedValues s). (flow_step cfg m (FunctionPointerTargets s))\<^sup>*\<^sup>* V W}"
  using drain_reaches[of cfg m s] assms by (simp add: pending_def reaches_def)

lemma drain_reachability_witness:
  "(flow_step ex_calls_cfg ex_calls [])\<^sup>*\<^sup>* 13 7
   \<and> \<not> (flow_step ex_calls_cfg ex_calls [])\<^sup>*\<^sup>* 13 8"
proof -
  let ?s = "taint_push 13 init_state"
  have "set (Worklist ?s) = set (TaintedValues ?s)" "TaintedValues init_state = []" "FunctionPointerTargets ?s = []"
    "7 \<in> set (TaintedValues (drain ex_calls_cfg ex_calls ?s))"
    "8 \<notin> set (TaintedValues (drain ex_calls_cfg ex_calls ?s))" by code_simp+
  with drain_reachability[of ?s ex_calls_cfg ex_calls] show ?thesis by simp
qed

end
