(* ===== verification/Seed_Facts.thy ===== *)
theory Seed_Facts
  imports Seed
begin

text \<open>
  The search for the constant as a list computation. \<open>occurrences\<close> lists the operands that
  match, in program order; the four nested loops with their counter and the jump out of them
  pick one element of it, or go through all of them.
\<close>

definition inst_occurrences :: "pass_params \<Rightarrow> llmodule \<Rightarrow> addr \<Rightarrow> (addr \<times> addr) list" where
  "inst_occurrences cfg m I =
     (if TargetOpcode cfg \<noteq> [] \<and> opcode_of m I \<noteq> TargetOpcode cfg then []
      else map (Pair I) (filter (\<lambda>Op. as_const_int m Op = Some (ConstantToTrack cfg)) (operands_of m I)))"

definition occurrences :: "pass_params \<Rightarrow> llmodule \<Rightarrow> (addr \<times> addr) list" where
  "occurrences cfg m =
     concat (map (inst_occurrences cfg m)
       (concat (map func_insts (filter (\<lambda>F. fname F = FunctionName cfg) (funcs m)))))"

fun seed_one :: "pass_params \<Rightarrow> llmodule \<Rightarrow> addr \<times> addr \<Rightarrow> tstate \<Rightarrow> tstate" where
  "seed_one cfg m (I, CI) s = (if I \<in> set (TaintedValues s) then s else seed_source cfg m I CI s)"

text \<open>One occurrence of the search.\<close>

fun occ_step :: "pass_params \<Rightarrow> llmodule \<Rightarrow> addr \<times> addr \<Rightarrow> search \<Rightarrow> search" where
  "occ_step cfg m o_i (s, n, stop) =
     (if stop then (s, n, stop)
      else if OccurrenceIndex cfg \<noteq> 0 \<and> n + 1 \<noteq> OccurrenceIndex cfg then (s, n + 1, False)
      else (seed_one cfg m o_i s, n + 1, OccurrenceIndex cfg \<noteq> 0))"

lemma fold_stopped: "fold (occ_step cfg m) os (s, n, True) = (s, n, True)"
  by (induction os) simp_all

lemma seed_operand_occ:
  assumes "\<not> Verbose cfg"
  shows "seed_operand cfg m I (k, Op) x =
     (if as_const_int m Op = Some (ConstantToTrack cfg) then occ_step cfg m (I, Op) x else x)"
  using assms by (cases x) (auto simp: seed_operand.simps emit_if_def Let_def split: option.split)

lemma seed_inst_occ:
  assumes "\<not> Verbose cfg"
  shows "seed_inst cfg m (k, I) x = fold (occ_step cfg m) (inst_occurrences cfg m I) x"
proof -
  let ?P = "\<lambda>Op. as_const_int m Op = Some (ConstantToTrack cfg)"
  have ops: "fold (seed_operand cfg m I) (enumerate i ops) x =
      fold (occ_step cfg m) (map (Pair I) (filter ?P ops)) x" for i ops x
    by (induction ops arbitrary: i x) (simp_all add: seed_operand_occ[OF assms] del: occ_step.simps)
  show ?thesis
    using assms fold_stopped[of cfg m]
    by (cases x) (simp add: seed_inst.simps inst_occurrences_def emit_if_def Let_def ops del: occ_step.simps)
qed

lemma seed_block_occ:
  assumes "\<not> Verbose cfg"
  shows "seed_block cfg m (k, B) x =
     fold (occ_step cfg m) (concat (map (inst_occurrences cfg m) (binsts B))) x"
proof -
  have "fold (seed_inst cfg m) (enumerate i is) x =
      fold (occ_step cfg m) (concat (map (inst_occurrences cfg m) is)) x" for i "is" x
    by (induction "is" arbitrary: i x) (simp_all add: seed_inst_occ[OF assms])
  then show ?thesis
    using assms fold_stopped[of cfg m] by (cases x) (auto simp: seed_block.simps emit_if_def)
qed

lemma seed_function_occ:
  assumes "\<not> Verbose cfg"
  shows "seed_function cfg m F x = (if fname F = FunctionName cfg
     then fold (occ_step cfg m) (concat (map (inst_occurrences cfg m) (func_insts F))) x else x)"
proof -
  have "fold (seed_block cfg m) (enumerate i Bs) x =
      fold (occ_step cfg m) (concat (map (inst_occurrences cfg m) (concat (map binsts Bs)))) x" for i Bs x
    by (induction Bs arbitrary: i x) (simp_all add: seed_block_occ[OF assms])
  then show ?thesis by (simp add: seed_function_def func_insts_def)
qed

lemma seed_occ:
  assumes "\<not> Verbose cfg"
  shows "seed cfg m s = fst (fold (occ_step cfg m) (occurrences cfg m) (s, 0, False))"
proof -
  have "fold (seed_function cfg m) Fs x = fold (occ_step cfg m)
      (concat (map (inst_occurrences cfg m)
        (concat (map func_insts (filter (\<lambda>F. fname F = FunctionName cfg) Fs))))) x" for Fs x
    by (induction Fs arbitrary: x) (simp_all add: seed_function_occ[OF assms])
  then show ?thesis by (simp add: seed_def occurrences_def)
qed

lemma occ_all:
  assumes "OccurrenceIndex cfg = 0"
  shows "fst (fold (occ_step cfg m) os (s, n, False)) = fold (seed_one cfg m) os s"
  using assms by (induction os arbitrary: s n) simp_all

lemma occ_nth:
  assumes "unat n < unat (OccurrenceIndex cfg)" "unat n + length os < 2 ^ 32"
  shows "fst (fold (occ_step cfg m) os (s, n, False)) =
     (let k = unat (OccurrenceIndex cfg) - unat n - 1
      in if k < length os then seed_one cfg m (os ! k) s else s)"
  using assms
proof (induction os arbitrary: n)
  case (Cons o_i os)
  have n1: "unat (n + 1) = unat n + 1"
    using Cons.prems(2) by (simp add: unat_word_ariths)
  have z: "OccurrenceIndex cfg \<noteq> 0" using Cons.prems(1) by auto
  show ?case
  proof (cases "n + 1 = OccurrenceIndex cfg")
    case True
    then have "unat (OccurrenceIndex cfg) - unat n - 1 = 0" using n1 by simp
    with True z show ?thesis by (simp add: fold_stopped)
  next
    case False
    then have "unat (n + 1) \<noteq> unat (OccurrenceIndex cfg)" by (simp add: word_unat_eq_iff)
    with Cons.prems n1 have lt: "unat (n + 1) < unat (OccurrenceIndex cfg)" by linarith
    obtain k where k: "unat (OccurrenceIndex cfg) - unat n - 1 = Suc k"
        "unat (OccurrenceIndex cfg) - unat (n + 1) - 1 = k"
      using lt n1 by (intro that[of "unat (OccurrenceIndex cfg) - unat (n + 1) - 1"]) linarith+
    show ?thesis
      using Cons.IH[OF lt] Cons.prems(2) n1 z False unfolding k by simp
  qed
qed simp

lemma occurrences_switch: "occurrences (cfg\<lparr>Verbose := b\<rparr>) m = occurrences cfg m"
proof -
  have "inst_occurrences (cfg\<lparr>Verbose := b\<rparr>) m = inst_occurrences cfg m"
    by (rule ext) (simp add: inst_occurrences_def)
  then show ?thesis by (simp add: occurrences_def)
qed

lemma seed_source_level:
  "I \<in> set (TaintedValues (seed_source cfg m I CI s))
     \<and> map_of (ValueLevel (seed_source cfg m I CI s)) I = Some 0"
proof -
  let ?s1 = "taint_push I s"
  let ?s2 = "if func_of_inst m I \<noteq> nullptr then set_flevel (func_of_inst m I) 0 ?s1 else ?s1"
  let ?s3 = "set_level I 0 ?s2"
  let ?here = "getDebugLoc cfg m I @ func_level m ?s3 I"
  let ?s5 = "emit SOURCE_USE I (''[USE] Source instruction in data flow'' @ ?here)
      (emit SOURCE I (''[SOURCE] Tainting: '' @ getValueName m I @ ?here) ?s3)"
  have eq: "seed_source cfg m I CI s = seed_call cfg m I CI (seed_store cfg m I (seed_return cfg m I CI ?s5))"
    by (simp add: seed_source_def Let_def del: append.simps)
  have g: "grows m ?s5 (seed_source cfg m I CI s)"
    unfolding eq by (intro grow_intros grows_refl)
  have 5: "I \<in> set (TaintedValues ?s5)" "map_of (ValueLevel ?s5) I = Some 0"
    by simp_all
  show ?thesis
    using growsD(1)[OF g] 5(1) grows_level[OF g 5] by blast
qed

text \<open>
  The occurrence asked for, in a quiet run, where the search prints nothing of its own. The
  property for all runs is in \<open>Switches\<close>.
\<close>

lemma seed_picks_quiet:
  assumes "\<not> Verbose cfg" "length (occurrences cfg m) < 2 ^ 32"
  shows "seed cfg m s =
     (if OccurrenceIndex cfg = 0 then fold (seed_one cfg m) (occurrences cfg m) s
      else if unat (OccurrenceIndex cfg) \<le> length (occurrences cfg m)
      then seed_one cfg m (occurrences cfg m ! (unat (OccurrenceIndex cfg) - 1)) s
      else s)"
proof (cases "OccurrenceIndex cfg = 0")
  case True
  then show ?thesis by (simp add: seed_occ[OF assms(1)] occ_all)
next
  case False
  then have "0 < unat (OccurrenceIndex cfg)" by (simp add: unat_gt_0)
  with False show ?thesis
    using occ_nth[of 0 cfg "occurrences cfg m" m s] assms(2)
    by (auto simp: seed_occ[OF assms(1)] Let_def simp del: seed_one.simps)
qed

end
