(* ===== verification/Switches.thy ===== *)
theory Switches
  imports Analysis Seed_Facts
begin

text \<open>
  The parameters \<open>Verbose\<close> and \<open>ApproxDebugInfo\<close> concern the output alone: two runs from
  configurations that differ there end in the same state and print the same messages, up to
  the verbose ones and, when \<open>ApproxDebugInfo\<close> differs, the text of the source locations.

  It is a relation between two states, \<open>alike\<close>, that every operation of the pass keeps when
  the two sides run it under the two configurations.
\<close>

named_theorems alike_intros \<open>operations that keep two states alike\<close>

subsection \<open>The relation\<close>

text \<open>
  The lines that do not depend on \<open>Verbose\<close>: not the configuration, which prints it, not the
  verbose lines, and not the lines on the value taken from the worklist, which the upward
  phase prints in verbose mode only.
\<close>

definition visible :: "event \<Rightarrow> bool" where
  "visible e = (ev_tag e \<noteq> CONFIG \<and> ev_tag e \<noteq> VERBOSE \<and> ev_tag e \<noteq> PROCESS \<and> ev_tag e \<noteq> NO_USE)"

definition shown :: "bool \<Rightarrow> tstate \<Rightarrow> event list" where
  "shown texts s = map (\<lambda>e. if texts then e else Ev (ev_tag e) (ev_value e) []) (filter visible (Log s))"

definition alike :: "bool \<Rightarrow> tstate \<Rightarrow> tstate \<Rightarrow> bool" where
  "alike texts s t = (s\<lparr>Log := []\<rparr> = t\<lparr>Log := []\<rparr> \<and> shown texts s = shown texts t)"

definition alike_with :: "bool \<Rightarrow> tstate \<times> 'a \<Rightarrow> tstate \<times> 'a \<Rightarrow> bool" where
  "alike_with texts x y = (alike texts (fst x) (fst y) \<and> snd x = snd y)"

definition switched :: "bool \<Rightarrow> pass_params \<Rightarrow> pass_params \<Rightarrow> bool" where
  "switched texts cfg cfg' =
     (cfg\<lparr>Verbose := False, ApproxDebugInfo := False\<rparr> = cfg'\<lparr>Verbose := False, ApproxDebugInfo := False\<rparr>
      \<and> (texts \<longrightarrow> ApproxDebugInfo cfg' = ApproxDebugInfo cfg))"

lemma alike_refl [simp, intro]: "alike texts s s"
  by (simp add: alike_def)

lemma alike_withI: "alike texts s t \<Longrightarrow> alike_with texts (s, a) (t, a)"
  by (simp add: alike_with_def)

lemma alike_fields:
  assumes "alike texts s t"
  shows "Worklist t = Worklist s" "TaintedValues t = TaintedValues s"
    "TaintedPointers t = TaintedPointers s" "KilledStores t = KilledStores s"
    "FunctionsReturningTaint t = FunctionsReturningTaint s"
    "PointerTaintOrigin t = PointerTaintOrigin s" "ValueLevel t = ValueLevel s"
    "FunctionLevel t = FunctionLevel s"
    "FunctionsTaintingPointerParams t = FunctionsTaintingPointerParams s"
    "FunctionParamFieldAccess t = FunctionParamFieldAccess s"
    "FunctionPointerTargets t = FunctionPointerTargets s" "changed t = changed s"
    "discoveredNewFunctions t = discoveredNewFunctions s"
  using assms unfolding alike_def by (cases s; cases t; simp)+

lemma alike_reads:
  assumes "alike texts s t"
  shows "ptr_params t = ptr_params s" "ptr_param_known t f i = ptr_param_known s f i"
    "level m t V = level m s V" "func_level m t I = func_level m s I"
    "func_level_v m t V = func_level_v m s V"
  using alike_fields[OF assms]
  by (simp_all add: ptr_params_def level_def func_level_def func_level_v_def)

lemma switched_fields:
  assumes "switched texts cfg cfg'"
  shows "FunctionName cfg' = FunctionName cfg" "TargetOpcode cfg' = TargetOpcode cfg"
    "ConstantToTrack cfg' = ConstantToTrack cfg" "InterprocMode cfg' = InterprocMode cfg"
    "IndirectCallMode cfg' = IndirectCallMode cfg"
    "UpwardInterprocMode cfg' = UpwardInterprocMode cfg"
    "OccurrenceIndex cfg' = OccurrenceIndex cfg"
  using assms unfolding switched_def by (cases cfg; cases cfg'; simp)+

lemma getDebugLoc_approx:
  "ApproxDebugInfo cfg' = ApproxDebugInfo cfg \<Longrightarrow> getDebugLoc cfg' m V = getDebugLoc cfg m V"
  by (simp add: getDebugLoc_def split: vkind.split option.split)

lemma switched_text:
  "switched texts cfg cfg' \<Longrightarrow> texts \<Longrightarrow> getDebugLoc cfg' m V = getDebugLoc cfg m V"
  by (rule getDebugLoc_approx) (simp add: switched_def)

lemmas alike_func_level = alike_reads(4)[symmetric] alike_reads(5)[symmetric]

lemmas alike_simps = alike_fields alike_reads switched_fields switched_text

subsection \<open>Primitive updates\<close>

lemma alike_emit [alike_intros]:
  "alike texts s t \<Longrightarrow> (texts \<Longrightarrow> x = y) \<Longrightarrow> alike texts (emit g v x s) (emit g v y t)"
  "alike texts s t \<Longrightarrow> (texts \<Longrightarrow> x = y) \<Longrightarrow> alike texts (emit_if c g v x s) (emit_if c g v y t)"
  "alike texts s t \<Longrightarrow> alike texts (emit_if c VERBOSE v x s) (emit_if d VERBOSE v y t)"
  "alike texts s t \<Longrightarrow> alike texts (emit_if c PROCESS v x s) (emit_if d PROCESS v y t)"
  "alike texts s t \<Longrightarrow> alike texts (emit_if c NO_USE v x s) (emit_if d NO_USE v y t)"
  by (cases s; cases t; auto simp: alike_def shown_def visible_def emit_def emit_if_def)+

lemma emit_level [simp]:
  "level m (emit g v x s) V = level m s V" "level m (emit_if c g v x s) V = level m s V"
  by (simp_all add: level_def)

lemma alike_prims [alike_intros]:
  assumes "alike texts s t"
  shows "alike texts (set_level v l s) (set_level v l t)"
    "alike texts (set_flevel f l s) (set_flevel f l t)"
    "alike texts (taint_push v s) (taint_push v t)"
    "alike texts (taint_pointer p I s) (taint_pointer p I t)"
    "alike texts (add_returning f s) (add_returning f t)"
    "alike texts (add_ptr_param f i s) (add_ptr_param f i t)"
    "alike texts (add_killed I s) (add_killed I t)"
    "alike texts (set_changed b s) (set_changed b t)"
    "alike texts (set_discovered b s) (set_discovered b t)"
    "alike texts (add_fields f i ixs s) (add_fields f i ixs t)"
    "alike texts (add_target p f s) (add_target p f t)"
    "alike texts (pop_worklist s) (pop_worklist t)"
  using assms unfolding alike_def shown_def
  by (cases s; cases t; simp add: primitive_defs add_target_def pop_worklist_def)+

lemma alike_ensureLevelSet [alike_intros]:
  "alike texts s t \<Longrightarrow> alike texts (ensureLevelSet m I s) (ensureLevelSet m I t)"
  by (auto simp: ensureLevelSet_def alike_fields intro!: alike_intros)

lemma fold_alike:
  assumes "\<And>a x y. R x y \<Longrightarrow> R (f a x) (g a y)" and "R x y"
  shows "R (fold f as x) (fold g as y)"
  using assms(2) by (induction as arbitrary: x y) (simp_all add: assms(1))

lemma rel_if:
  "(c \<Longrightarrow> R x y) \<Longrightarrow> (\<not> c \<Longrightarrow> R x' y') \<Longrightarrow> R (if c then x else x') (if c then y else y')"
  by simp

subsection \<open>Stores, loads and function pointers\<close>

lemma alike_track_gep [alike_intros]:
  "alike texts s t \<Longrightarrow> alike texts (track_gep m p s) (track_gep m p t)"
  by (auto simp: track_gep_def intro!: alike_intros split: option.split prod.split)

lemma alike_record_fields [alike_intros]:
  "alike texts s t \<Longrightarrow> alike texts (record_fields F i ixs s) (record_fields F i ixs t)"
  by (auto simp: record_fields_def intro!: alike_intros)

lemma alike_processStore:
  assumes "alike texts s t" "switched texts cfg cfg'"
  shows "alike_with texts (processStoreForTaint cfg m S V s) (processStoreForTaint cfg' m S V t)"
proof (cases "as_store m S")
  case (Some vp)
  with assms show ?thesis
    by (cases vp) (auto simp: processStoreForTaint_def alike_with_def Let_def alike_simps
      intro!: alike_intros alike_func_level)
qed (use assms in \<open>simp add: processStoreForTaint_def alike_with_def\<close>)

lemma alike_scan_load:
  assumes "alike_with texts x y" "switched texts cfg cfg'"
  shows "alike_with texts (scan_load cfg m ks P I x) (scan_load cfg' m ks P I y)"
  using assms
  by (cases x; cases y) (auto simp: scan_load.simps alike_with_def Let_def alike_simps
      skip_text_def load_text_def
      intro!: alike_intros alike_func_level split: option.split)

lemma alike_scan_pointer:
  assumes "alike_with texts x y" "switched texts cfg cfg'"
  shows "alike_with texts (scan_pointer cfg m ks P x) (scan_pointer cfg' m ks P y)"
  unfolding scan_pointer_def
  by (rule fold_alike[where R = "alike_with texts"]) (use assms alike_scan_load in blast)+

lemma alike_scan:
  assumes "alike texts s t" "switched texts cfg cfg'"
  shows "alike_with texts (scanLoadsFromTaintedPointers cfg m pts ks s)
     (scanLoadsFromTaintedPointers cfg' m pts ks t)"
  unfolding scanLoadsFromTaintedPointers_def
proof (rule fold_alike[where R = "alike_with texts"])
  show "alike_with texts (s, False) (t, False)" using assms(1) by (simp add: alike_with_def)
qed (use assms(2) alike_scan_pointer in blast)

lemma alike_store_target:
  assumes "alike texts s t" "switched texts cfg cfg'"
  shows "alike texts (store_target cfg m I s) (store_target cfg' m I t)"
  using assms by (auto simp: store_target_def Let_def intro!: alike_intros split: option.split)

lemma alike_build_targets:
  assumes "alike texts s t" "switched texts cfg cfg'"
  shows "alike texts (build_targets cfg m s) (build_targets cfg' m t)"
  using assms
  by (auto simp: build_targets_def switched_fields
      intro!: alike_intros fold_alike[where R = "alike texts"] alike_store_target)

subsection \<open>Phase 1\<close>

lemma alike_taint_param [alike_intros]:
  assumes "alike texts s t" "switched texts cfg cfg'"
  shows "alike texts (taint_param cfg m mg F i l C s) (taint_param cfg' m mg F i l C t)"
  using assms by (auto simp: taint_param_def Let_def alike_simps intro!: alike_intros alike_func_level)

lemma alike_seed_return [alike_intros]:
  assumes "alike texts s t" "switched texts cfg cfg'"
  shows "alike texts (seed_return cfg m I CI s) (seed_return cfg' m I CI t)"
  using assms by (auto simp: seed_return_def Let_def alike_simps intro!: alike_intros split: option.split)

lemma alike_seed_store [alike_intros]:
  assumes "alike texts s t" "switched texts cfg cfg'"
  shows "alike texts (seed_store cfg m I s) (seed_store cfg' m I t)"
  using assms
  by (auto simp: seed_store_def Let_def alike_simps intro!: alike_intros split: option.split prod.split)

lemma alike_seed_call_arg:
  assumes "alike texts s t" "switched texts cfg cfg'"
  shows "alike texts (seed_call_arg cfg m I CI F ia s) (seed_call_arg cfg' m I CI F ia t)"
  using assms by (cases ia) (auto simp: seed_call_arg_def Let_def alike_simps intro!: alike_intros)

lemma alike_seed_indirect_arg:
  assumes "alike texts s t" "switched texts cfg cfg'"
  shows "alike texts (seed_indirect_arg cfg m I CI ia s) (seed_indirect_arg cfg' m I CI ia t)"
  using assms by (cases ia) (auto simp: seed_indirect_arg_def alike_simps intro!: alike_intros)

lemma alike_seed_call [alike_intros]:
  assumes "alike texts s t" "switched texts cfg cfg'"
  shows "alike texts (seed_call cfg m I CI s) (seed_call cfg' m I CI t)"
  using assms
  by (auto simp: seed_call_def intro!: fold_alike[where R = "alike texts"] alike_seed_call_arg
      alike_seed_indirect_arg split: option.split)

lemma alike_seed_source [alike_intros]:
  assumes "alike texts s t" "switched texts cfg cfg'"
  shows "alike texts (seed_source cfg m I CI s) (seed_source cfg' m I CI t)"
  using assms by (auto simp: seed_source_def Let_def alike_simps intro!: alike_intros alike_func_level)

lemma alike_seed_one:
  assumes "alike texts s t" "switched texts cfg cfg'"
  shows "alike texts (seed_one cfg m o_i s) (seed_one cfg' m o_i t)"
  using assms by (cases o_i) (auto simp: alike_fields intro!: alike_seed_source)

lemma alike_seed_operand:
  assumes "alike_with texts x y" "switched texts cfg cfg'"
  shows "alike_with texts (seed_operand cfg m I no x) (seed_operand cfg' m I no y)"
  using assms
  by (cases x; cases y; cases no) (auto simp: seed_operand.simps alike_with_def Let_def alike_simps
      intro!: alike_intros split: option.split)

lemma alike_seed_inst:
  assumes "alike_with texts x y" "switched texts cfg cfg'"
  shows "alike_with texts (seed_inst cfg m ni x) (seed_inst cfg' m ni y)"
proof (cases x; cases y; cases ni)
  fix s occ stop t occ' stop' n I
  assume *: "x = (s, occ, stop)" "y = (t, occ', stop')" "ni = (n, I)"
  have "alike_with texts (fold (seed_operand cfg m I) ops (emit_if c VERBOSE I tx s, occ, False))
      (fold (seed_operand cfg' m I) ops (emit_if d VERBOSE I tx t, occ, False))" for ops c d tx
    by (rule fold_alike[where R = "alike_with texts"])
      (use assms alike_seed_operand in \<open>auto simp: * alike_with_def intro!: alike_intros\<close>)
  then show ?thesis
    using assms by (auto simp: * seed_inst.simps Let_def alike_with_def alike_simps intro!: alike_intros)
qed

lemma alike_seed_block:
  assumes "alike_with texts x y" "switched texts cfg cfg'"
  shows "alike_with texts (seed_block cfg m nb x) (seed_block cfg' m nb y)"
proof (cases x; cases y; cases nb)
  fix s occ stop t occ' stop' n B
  assume *: "x = (s, occ, stop)" "y = (t, occ', stop')" "nb = (n, B)"
  have "alike_with texts (fold (seed_inst cfg m) is (emit_if c VERBOSE v tx s, occ, False))
      (fold (seed_inst cfg' m) is (emit_if d VERBOSE v tx t, occ, False))" for "is" c d v tx
    by (rule fold_alike[where R = "alike_with texts"])
      (use assms alike_seed_inst in \<open>auto simp: * alike_with_def intro!: alike_intros\<close>)
  then show ?thesis
    using assms by (auto simp: * seed_block.simps alike_with_def)
qed

lemma alike_seed:
  assumes "alike texts s t" "switched texts cfg cfg'"
  shows "alike texts (seed cfg m s) (seed cfg' m t)"
proof -
  have "alike_with texts (seed_function cfg m F x) (seed_function cfg' m F y)"
    if "alike_with texts x y" for F x y
    using that assms(2)
    by (auto simp: seed_function_def switched_fields
        intro!: fold_alike[where R = "alike_with texts"] alike_seed_block)
  then have "alike_with texts (fold (seed_function cfg m) (funcs m) (s, 0, False))
      (fold (seed_function cfg' m) (funcs m) (t, 0, False))"
    using assms(1) by (intro fold_alike[where R = "alike_with texts"]) (auto simp: alike_with_def)
  then show ?thesis by (simp add: seed_def alike_with_def)
qed

subsection \<open>Phase 2\<close>

lemma alike_call_direct [alike_intros]:
  assumes "alike texts s t" "switched texts cfg cfg'"
  shows "alike texts (call_direct cfg m V C F i s) (call_direct cfg' m V C F i t)"
proof -
  have l: "alike texts (if \<not> dm_count (ValueLevel s) C then set_level C (level m s V) s else s)
      (if \<not> dm_count (ValueLevel t) C then set_level C (level m t V) t else t)"
    using assms(1) by (auto simp: alike_simps intro: alike_prims)
  have "alike texts
     (let s2 = emit CHILD C tx a in
      if c \<and> i < length as \<and> \<not> ds_count (TaintedValues s2) (as ! i)
      then set_changed True (taint_param cfg m mg F i (level m s2 V) C s2) else s2)
     (let s2 = emit CHILD C ty b in
      if c \<and> i < length as \<and> \<not> ds_count (TaintedValues s2) (as ! i)
      then set_changed True (taint_param cfg' m mg F i (level m s2 V) C s2) else s2)"
    if "alike texts a b" "texts \<Longrightarrow> tx = ty" for a b tx ty c as mg
    using that assms(2) by (auto simp: Let_def alike_simps intro!: alike_intros)
  from this[OF l] show ?thesis
    unfolding call_direct_def switched_fields[OF assms(2)]
    by (simp only: Let_def) (simp only: alike_func_level(1)[OF l] switched_text[OF assms(2)] cong: conj_cong)
qed

lemma alike_indirect_target:
  assumes "alike texts s t" "switched texts cfg cfg'"
  shows "alike texts (indirect_target cfg m V C i T s) (indirect_target cfg' m V C i T t)"
  using assms by (auto simp: indirect_target_def Let_def alike_simps intro!: alike_intros)

lemma alike_call_indirect [alike_intros]:
  assumes "alike texts s t" "switched texts cfg cfg'"
  shows "alike texts (call_indirect cfg m V C cv i s) (call_indirect cfg' m V C cv i t)"
  using assms
  by (auto simp: call_indirect_def external_text_def Let_def alike_simps
      intro!: alike_intros fold_alike[where R = "alike texts"] alike_indirect_target)

lemma alike_call_sink [alike_intros]:
  assumes "alike texts s t" "switched texts cfg cfg'"
  shows "alike texts (call_sink cfg m V C s) (call_sink cfg' m V C t)"
  using assms
  by (auto simp: call_sink_def external_text_def alike_simps intro!: alike_intros split: option.split)

lemma alike_use_return [alike_intros]:
  assumes "alike texts s t" "switched texts cfg cfg'"
  shows "alike texts (use_return cfg m R s) (use_return cfg' m R t)"
  using assms by (auto simp: use_return_def Let_def alike_simps intro!: alike_intros)

lemma alike_use_store:
  assumes "alike texts s t" "switched texts cfg cfg'"
  shows "alike_with texts (use_store cfg m S p s) (use_store cfg' m S p t)"
  using assms
  by (auto simp: use_store_def alike_with_def Let_def alike_simps intro!: alike_intros split: option.split)

lemma alike_propagate [alike_intros]:
  assumes "alike texts s t" "switched texts cfg cfg'"
  shows "alike texts (propagate cfg m V U s) (propagate cfg' m V U t)"
  using assms by (auto simp: propagate_def Let_def alike_simps intro!: alike_intros alike_func_level)

lemma alike_forward_use:
  assumes "alike texts s t" "switched texts cfg cfg'"
  shows "alike texts (forward_use cfg m V U s) (forward_use cfg' m V U t)"
proof -
  have rest: "alike texts
      (if as_ret m U = Some V then use_return cfg m U a
       else case as_store m U of
         Some (val, ptr) \<Rightarrow>
           if val = V then (case use_store cfg m U ptr a of
             (s2, goes_on) \<Rightarrow> if goes_on then propagate cfg m V U s2 else s2)
           else propagate cfg m V U a
       | None \<Rightarrow> propagate cfg m V U a)
      (if as_ret m U = Some V then use_return cfg' m U b
       else case as_store m U of
         Some (val, ptr) \<Rightarrow>
           if val = V then (case use_store cfg' m U ptr b of
             (s2, goes_on) \<Rightarrow> if goes_on then propagate cfg' m V U s2 else s2)
           else propagate cfg' m V U b
       | None \<Rightarrow> propagate cfg' m V U b)"
    if "alike texts a b" for a b
    using that assms(2) alike_use_store[OF that assms(2), of m U]
    by (auto simp: alike_with_def split_beta intro!: alike_use_return alike_propagate split: option.split)
  show ?thesis
  proof (cases "is_inst m U")
    case True
    show ?thesis
      unfolding forward_use_def Let_def if_not_P[OF iffD2[OF not_not True]]
      by (intro rest alike_call_sink alike_emit assms)
  qed (simp add: forward_use_def assms(1))
qed

lemma alike_process_value:
  assumes "alike texts s t" "switched texts cfg cfg'"
  shows "alike texts (process_value cfg m V s) (process_value cfg' m V t)"
  unfolding process_value_def
  by (rule fold_alike[where R = "alike texts"])
    (use assms alike_forward_use in \<open>auto intro!: alike_intros\<close>)

lemma alike_drain:
  "alike texts s t \<Longrightarrow> switched texts cfg cfg' \<Longrightarrow> alike texts (drain cfg m s) (drain cfg' m t)"
proof (induction cfg m s arbitrary: t rule: drain.induct)
  case (1 cfg m s)
  show ?case
  proof (cases "Worklist s = []")
    case True
    with "1.prems" show ?thesis by (simp add: drain.simps alike_fields(1))
  next
    case False
    have "alike texts (process_value cfg m (hd (Worklist s)) (pop_worklist s))
        (process_value cfg' m (hd (Worklist s)) (pop_worklist t))"
      by (intro alike_process_value alike_prims "1.prems")
    from "1.IH"[OF False this "1.prems"(2)] False show ?thesis
      by (simp add: drain.simps[of cfg m s] drain.simps[of cfg' m t] alike_fields(1)[OF "1.prems"(1)])
  qed
qed

lemma alike_kill_store:
  assumes "alike texts s t"
  shows "alike texts (kill_store cfg m I s) (kill_store cfg' m I t)"
  using assms
  by (auto simp: kill_store_def Let_def alike_simps intro!: alike_intros split: option.split)

lemma alike_find_kills:
  assumes "alike texts s t"
  shows "alike texts (find_kills cfg m s) (find_kills cfg' m t)"
  unfolding find_kills_def
  by (rule fold_alike[where R = "alike texts"]) (use assms alike_kill_store in blast)+

lemma alike_forward_round:
  assumes "alike texts s t" "switched texts cfg cfg'"
  shows "fst (forward_round cfg' m sc t) = fst (forward_round cfg m sc s)"
    and "alike texts (snd (forward_round cfg m sc s)) (snd (forward_round cfg' m sc t))"
proof -
  let ?s2 = "find_kills cfg m (drain cfg m (set_changed False s))"
  let ?t2 = "find_kills cfg' m (drain cfg' m (set_changed False t))"
  let ?pts = "pointers_to_scan sc ?s2"
  have 2: "alike texts ?s2 ?t2"
    by (intro alike_find_kills alike_drain alike_prims assms)
  have pts: "pointers_to_scan sc ?t2 = ?pts"
    by (simp only: pointers_to_scan_def alike_fields(3)[OF 2])
  have 3: "alike_with texts (scanLoadsFromTaintedPointers cfg m ?pts (Some (KilledStores ?s2)) ?s2)
      (scanLoadsFromTaintedPointers cfg' m ?pts (Some (KilledStores ?s2)) ?t2)"
    by (rule alike_scan[OF 2 assms(2)])
  show "fst (forward_round cfg' m sc t) = fst (forward_round cfg m sc s)"
    by (simp add: forward_round_def Let_def pts split_beta)
  show "alike texts (snd (forward_round cfg m sc s)) (snd (forward_round cfg' m sc t))"
    using 3 unfolding forward_round_def Let_def pts alike_fields(4)[OF 2]
    by (simp add: alike_with_def split_beta alike_prims)
qed

lemma alike_forward_loop:
  "alike texts s t \<Longrightarrow> switched texts cfg cfg' \<Longrightarrow>
     alike texts (forward_loop cfg m sc s) (forward_loop cfg' m sc t)"
proof (induction cfg m sc s arbitrary: t rule: forward_loop.induct)
  case (1 cfg m sc s)
  obtain sc' s' where r: "forward_round cfg m sc s = (sc', s')" by fastforce
  obtain t' where r': "forward_round cfg' m sc t = (sc', t')" and a: "alike texts s' t'"
    using alike_forward_round[OF "1.prems", of m sc] r
    by (metis fst_conv prod.collapse snd_conv)
  show ?case
    using "1.IH"[OF r[symmetric] _ a "1.prems"(2)] a
    by (simp add: forward_loop.simps[of cfg m sc s] forward_loop.simps[of cfg' m sc t] r r' alike_fields(12)[OF a])
qed

lemma alike_forward:
  "alike texts s t \<Longrightarrow> switched texts cfg cfg' \<Longrightarrow> alike texts (forward cfg m s) (forward cfg' m t)"
  by (simp add: forward_def alike_forward_loop)

subsection \<open>Phase 5\<close>

lemma alike_raise [alike_intros]:
  "alike texts s t \<Longrightarrow> alike texts (raise_function f l s) (raise_function f l t)"
  by (auto simp: raise_function_def alike_fields intro!: alike_intros)

lemma alike_returning_call:
  assumes "alike_with texts x y" "switched texts cfg cfg'"
  shows "alike_with texts (returning_call cfg m TF I x) (returning_call cfg' m TF I y)"
  using assms
  by (cases x; cases y) (auto simp: alike_with_def Let_def alike_simps
      intro!: alike_intros alike_func_level split: option.split)

lemma alike_no_callers:
  "alike_with texts x y \<Longrightarrow>
     alike texts (case x of (s1, found) \<Rightarrow> if \<not> found then emit g v tx s1 else s1)
       (case y of (s1, found) \<Rightarrow> if \<not> found then emit g v tx s1 else s1)"
  by (auto simp: alike_with_def split_beta intro!: alike_emit)

lemma alike_callers_of_returning:
  assumes "alike texts s t" "switched texts cfg cfg'"
  shows "alike texts (callers_of_returning cfg m TF s) (callers_of_returning cfg' m TF t)"
proof -
  have "alike_with texts (fold (returning_call cfg m TF) is (emit_if c VERBOSE v tx s, False))
      (fold (returning_call cfg' m TF) is (emit_if d VERBOSE v tx t, False))" for "is" c d v tx
    by (rule fold_alike[where R = "alike_with texts"])
      (use assms alike_returning_call in \<open>auto simp: alike_with_def intro!: alike_intros\<close>)
  then show ?thesis
    unfolding callers_of_returning_def by (rule alike_no_callers)
qed

lemma alike_5a:
  assumes "alike texts s t" "switched texts cfg cfg'"
  shows "alike texts (step_5a cfg m s) (step_5a cfg' m t)"
  unfolding step_5a_def alike_fields(5)[OF assms(1)]
  by (rule fold_alike[where R = "alike texts"]) (use assms alike_callers_of_returning in blast)+

lemma alike_struct_store:
  assumes "alike texts s t"
  shows "alike texts (struct_store m C G ix GU s) (struct_store m C G ix GU t)"
  using assms by (auto simp: struct_store_def Let_def alike_simps intro!: alike_intros split: option.split)

lemma alike_struct_user:
  assumes "alike texts s t"
  shows "alike texts (struct_user m C acc U s) (struct_user m C acc U t)"
  using assms
  by (auto simp: struct_user_def Let_def intro!: fold_alike[where R = "alike texts"] alike_struct_store
      split: option.split)

lemma alike_struct_fields [alike_intros]:
  assumes "alike texts s t"
  shows "alike texts (struct_fields m TF i C PV s) (struct_fields m TF i C PV t)"
  using assms
  by (auto simp: struct_fields_def alike_fields intro!: fold_alike[where R = "alike texts"] alike_struct_user)

lemma alike_pass_through [alike_intros]:
  assumes "alike texts s t" "switched texts cfg cfg'"
  shows "alike texts (pass_through cfg m TF C P s) (pass_through cfg' m TF C P t)"
  using assms by (auto simp: pass_through_def Let_def alike_simps intro!: alike_intros alike_func_level)

lemma alike_taint_pointed [alike_intros]:
  assumes "alike texts s t" "switched texts cfg cfg'"
  shows "alike texts (taint_pointed cfg m TF C i PV s) (taint_pointed cfg' m TF C i PV t)"
  using assms by (auto simp: taint_pointed_def Let_def alike_simps intro!: alike_intros alike_func_level)

lemma alike_param_arg:
  assumes "alike texts s t" "switched texts cfg cfg'"
  shows "alike texts (param_arg cfg m TF C args i s) (param_arg cfg' m TF C args i t)"
  using assms by (auto simp: param_arg_def Let_def intro!: alike_intros)

lemma alike_param_call:
  assumes "alike_with texts x y" "switched texts cfg cfg'"
  shows "alike_with texts (param_call cfg m TF ps I x) (param_call cfg' m TF ps I y)"
  using assms
  by (cases x; cases y) (auto simp: alike_with_def intro!: fold_alike[where R = "alike texts"]
      alike_param_arg split: option.split)

lemma alike_callers_of_tainting:
  assumes "alike texts s t" "switched texts cfg cfg'"
  shows "alike texts (callers_of_tainting cfg m fp s) (callers_of_tainting cfg' m fp t)"
proof (cases fp)
  case (Pair TF ps)
  have "alike_with texts (fold (param_call cfg m TF ps) is (emit_if c VERBOSE v tx s, False))
      (fold (param_call cfg' m TF ps) is (emit_if d VERBOSE v tx t, False))" for "is" c d v tx
    by (rule fold_alike[where R = "alike_with texts"])
      (use assms alike_param_call in \<open>auto simp: alike_with_def intro!: alike_intros\<close>)
  then show ?thesis
    unfolding Pair callers_of_tainting.simps by (rule alike_no_callers)
qed

lemma alike_5b:
  assumes "alike texts s t" "switched texts cfg cfg'"
  shows "alike texts (step_5b cfg m s) (step_5b cfg' m t)"
  unfolding step_5b_def alike_fields(9)[OF assms(1)]
  by (rule fold_alike[where R = "alike texts"]) (use assms alike_callers_of_tainting in blast)+

lemma alike_upward_use:
  assumes "alike_with texts x y" "switched texts cfg cfg'"
  shows "alike_with texts (upward_use cfg m V U x) (upward_use cfg' m V U y)"
proof (cases x; cases y)
  fix s f t g assume x: "x = (s, f)" "y = (t, g)"
  with assms(1) have st: "alike texts s t" "g = f" by (auto simp: alike_with_def)
  let ?flow = "\<lambda>cfg s. let s1 = taint_push U (set_level U (level m s V) s) in
      emit FLOWS U (''  [USE] Taint flows to: '' @ getValueName m U @ getDebugLoc cfg m U
        @ func_level m s1 U) s1"
  let ?store = "\<lambda>cfg s. case processStoreForTaint cfg m U V s of
      (s', True) \<Rightarrow> set_discovered True s' | (s', False) \<Rightarrow> s'"
  let ?ret = "\<lambda>cfg s. if as_ret m U = Some V then
      let s4 = emit RETURNED U (''  [RETURN] Tainted value is returned'' @ getDebugLoc cfg m U
                 @ func_level m s U) s
      in if func_of_inst m U \<noteq> nullptr \<and> \<not> ds_count (FunctionsReturningTaint s4) (func_of_inst m U)
         then set_discovered True (add_returning (func_of_inst m U) s4) else s4 else s"
  have flow: "alike texts (?flow cfg s) (?flow cfg' t)"
    using st(1) assms(2) by (auto simp: Let_def alike_simps intro!: alike_intros alike_func_level)
  have store: "alike texts (?store cfg a) (?store cfg' b)" if "alike texts a b" for a b
    using alike_processStore[OF that assms(2), of m U V]
    by (auto simp: alike_with_def split_beta intro: alike_prims split: bool.split)
  have ret: "alike texts (?ret cfg a) (?ret cfg' b)" if "alike texts a b" for a b
    using that assms(2) by (auto simp: Let_def alike_simps intro!: alike_intros)
  have new: "alike texts (?ret cfg (?store cfg (?flow cfg s))) (?ret cfg' (?store cfg' (?flow cfg' t)))"
    by (rule ret[OF store[OF flow]])
  have eq: "upward_use cfg m V U (s, f) =
     (if \<not> is_inst m U then (s, f)
      else if ds_count (TaintedValues s) U
      then (emit_if (Verbose cfg) VERBOSE U (''  [SKIP] Already tainted: '' @ getValueName m U) s, f)
      else (?ret cfg (?store cfg (?flow cfg s)), True))" for cfg s f
    by (simp only: upward_use.simps Let_def)
  show ?thesis
    unfolding x st(2) eq alike_fields(2)[OF st(1)]
    by (intro rel_if[where R = "alike_with texts"] alike_withI new st(1) alike_emit)
qed

lemma alike_upward_value:
  assumes "alike texts s t" "switched texts cfg cfg'"
  shows "alike texts (upward_value cfg m V s) (upward_value cfg' m V t)"
proof -
  have "alike_with texts (fold (upward_use cfg m V) us (emit_if c PROCESS V tx s, False))
      (fold (upward_use cfg' m V) us (emit_if d PROCESS V tx t, False))" for us c d tx
    by (rule fold_alike[where R = "alike_with texts"])
      (use assms alike_upward_use in \<open>auto simp: alike_with_def intro!: alike_intros\<close>)
  then show ?thesis
    by (auto simp: upward_value_def alike_with_def split_beta simp del: append.simps intro!: alike_emit)
qed

lemma alike_upward_drain:
  "alike texts s t \<Longrightarrow> switched texts cfg cfg' \<Longrightarrow>
     alike texts (upward_drain cfg m s) (upward_drain cfg' m t)"
proof (induction cfg m s arbitrary: t rule: upward_drain.induct)
  case (1 cfg m s)
  show ?case
  proof (cases "Worklist s = []")
    case True
    with "1.prems" show ?thesis by (simp add: upward_drain.simps alike_fields(1))
  next
    case False
    have "alike texts (upward_value cfg m (hd (Worklist s)) (pop_worklist s))
        (upward_value cfg' m (hd (Worklist s)) (pop_worklist t))"
      by (intro alike_upward_value alike_prims "1.prems")
    from "1.IH"[OF False this "1.prems"(2)] False show ?thesis
      by (simp add: upward_drain.simps[of cfg m s] upward_drain.simps[of cfg' m t]
          alike_fields(1)[OF "1.prems"(1)])
  qed
qed

lemma alike_upward_scan:
  "alike texts s t \<Longrightarrow> switched texts cfg cfg' \<Longrightarrow>
     fst (upward_scan cfg' m usc t) = fst (upward_scan cfg m usc s)
     \<and> alike texts (snd (upward_scan cfg m usc s)) (snd (upward_scan cfg' m usc t))"
proof (induction cfg m usc s arbitrary: t rule: upward_scan.induct)
  case (1 cfg m usc s)
  let ?s1 = "upward_drain cfg m s" and ?t1 = "upward_drain cfg' m t"
  let ?pts = "pointers_to_scan usc ?s1"
  have a: "alike texts ?s1 ?t1" by (rule alike_upward_drain[OF "1.prems"])
  have pts: "pointers_to_scan usc ?t1 = ?pts"
    by (simp only: pointers_to_scan_def alike_fields(3)[OF a])
  have eq: "upward_scan cfg m usc s = (if pointers_to_scan usc (upward_drain cfg m s) = []
      then (usc, upward_drain cfg m s)
      else upward_scan cfg m (mark_scanned (pointers_to_scan usc (upward_drain cfg m s)) usc)
        (fst (scanLoadsFromTaintedPointers cfg m (pointers_to_scan usc (upward_drain cfg m s)) None
          (upward_drain cfg m s))))" for cfg s
    by (subst upward_scan.simps) (simp only: Let_def)
  show ?case
  proof (cases "?pts = []")
    case True
    then show ?thesis
      unfolding eq[of cfg s] eq[of cfg' t] pts using a by simp
  next
    case False
    have "alike texts (fst (scanLoadsFromTaintedPointers cfg m ?pts None ?s1))
        (fst (scanLoadsFromTaintedPointers cfg' m ?pts None ?t1))"
      using alike_scan[OF a "1.prems"(2)] by (simp add: alike_with_def)
    from "1.IH"[OF refl refl False this "1.prems"(2)] False show ?thesis
      unfolding eq[of cfg s] eq[of cfg' t] pts by simp
  qed
qed

lemma alike_upward_round:
  assumes "alike texts s t" "switched texts cfg cfg'"
  shows "fst (upward_round cfg' m n usc t) = fst (upward_round cfg m n usc s)"
    and "alike texts (snd (upward_round cfg m n usc s)) (snd (upward_round cfg' m n usc t))"
proof -
  let ?in = "\<lambda>cfg s. step_5b cfg m (step_5a cfg m (emit_if (Verbose cfg) VERBOSE nullptr
      (''--- Upward Tracking Iteration '' @ show_nat n @ '' ---'')
      (emit_if (Verbose cfg) VERBOSE nullptr '''' (set_discovered False s))))"
  have "alike texts (?in cfg s) (?in cfg' t)"
    by (intro alike_5b alike_5a alike_emit alike_prims assms)
  note sc = alike_upward_scan[OF this assms(2), of m usc]
  show "fst (upward_round cfg' m n usc t) = fst (upward_round cfg m n usc s)"
    using sc by (simp add: upward_round_def Let_def split_beta)
  show "alike texts (snd (upward_round cfg m n usc s)) (snd (upward_round cfg' m n usc t))"
    using conjunct2[OF sc] alike_fields(5,9)[OF conjunct2[OF sc]] alike_fields(5,9)[OF assms(1)]
    by (simp add: upward_round_def Let_def split_beta alike_prims)
qed

lemma alike_upward_loop:
  "alike texts s t \<Longrightarrow> switched texts cfg cfg' \<Longrightarrow>
     alike texts (upward_loop cfg m n usc s) (upward_loop cfg' m n usc t)"
proof (induction cfg m n usc s arbitrary: t rule: upward_loop.induct)
  case (1 cfg m n usc s)
  obtain usc' s' where r: "upward_round cfg m n usc s = (usc', s')" by fastforce
  obtain t' where r': "upward_round cfg' m n usc t = (usc', t')" and a: "alike texts s' t'"
    using alike_upward_round[OF "1.prems", of m n usc] r
    by (metis fst_conv prod.collapse snd_conv)
  show ?case
    using "1.IH"[OF r[symmetric] _ a "1.prems"(2)] a
    by (simp add: upward_loop.simps[of cfg m n usc s] upward_loop.simps[of cfg' m n usc t] r r'
        alike_fields(13)[OF a])
qed

lemma alike_upward:
  assumes "alike texts s t" "switched texts cfg cfg'"
  shows "alike texts (upward cfg m s) (upward cfg' m t)"
  unfolding upward_def alike_fields(5,9)[OF assms(1)] switched_fields(6)[OF assms(2)]
  by (intro rel_if[where R = "alike texts"] alike_emit alike_upward_loop assms)

subsection \<open>The report\<close>

lemma report_same:
  assumes "TaintedValues t = TaintedValues s" "ValueLevel t = ValueLevel s"
  shows "max_level t = max_level s" "collect_max m t l = collect_max m s l"
    "visited_functions m t = visited_functions m s"
    "function_ranges m t l c av = function_ranges m s l c av"
proof -
  have "collect_value m t l = collect_value m s l"
    by (rule ext)+ (simp add: collect_value_def assms)
  then show "collect_max m t l = collect_max m s l" by (simp add: collect_max_def assms)
  have "function_range t l c av = function_range s l c av"
    by (rule ext)+ (simp add: function_range_def at_max_level_def[abs_def] assms)
  then show "function_ranges m t l c av = function_ranges m s l c av" by (simp add: function_ranges_def)
  show "max_level t = max_level s" "visited_functions m t = visited_functions m s"
    by (simp_all add: max_level_def visited_functions_def assms)
qed

text \<open>The configuration appears only in the locations of the earliest and latest instructions.\<close>

lemma earliest_latest_length:
  "length (earliest_latest_lines cfg' m t l d) = length (earliest_latest_lines cfg m s l d)"
  by (simp add: earliest_latest_lines_def length_concat comp_def split_beta if_distrib[of length] cong: if_cong)

lemma alike_report_lines:
  assumes "alike texts s t" "switched texts cfg cfg'"
  shows "length (report_lines cfg' m t) = length (report_lines cfg m s)"
    and "texts \<Longrightarrow> report_lines cfg' m t = report_lines cfg m s"
proof -
  note same = report_same[OF alike_fields(2,7)[OF assms(1)]]
  have args: "report_arguments m t l r = report_arguments m s l r" for l r
    by (simp only: report_arguments_def same)
  have inst: "length (report_instructions cfg' m t l r) = length (report_instructions cfg m s l r)" for l r
    unfolding report_instructions_def Let_def same length_append earliest_latest_length[of cfg' m t l _ cfg s] ..
  show "length (report_lines cfg' m t) = length (report_lines cfg m s)"
    by (simp add: report_lines_def Let_def same args inst)
  show "report_lines cfg' m t = report_lines cfg m s" if texts
  proof -
    have it: "instruction_text cfg' m t = instruction_text cfg m s"
      by (rule ext) (simp add: instruction_text_def switched_text[OF assms(2) that] alike_reads[OF assms(1)])
    have "report_instructions cfg' m t l r = report_instructions cfg m s l r" for l r
      by (simp only: report_instructions_def earliest_latest_lines_def same it)
    then show ?thesis by (simp only: report_lines_def same args)
  qed
qed

lemma shown_emits:
  "shown texts (fold (emit REPORT nullptr) ls s) =
     shown texts s @ map (\<lambda>l. Ev REPORT nullptr (if texts then l else [])) ls"
  by (induction ls arbitrary: s) (simp_all add: shown_def emit_def visible_def)

lemma fold_emit_fields: "(fold (emit g v) ls s)\<lparr>Log := []\<rparr> = s\<lparr>Log := []\<rparr>"
  by (rule fold_keeps[where g = "\<lambda>s. s\<lparr>Log := []\<rparr>"]) (simp add: emit_def)

lemma alike_report:
  assumes "alike texts s t" "switched texts cfg cfg'"
  shows "alike texts (report cfg m s) (report cfg' m t)"
proof -
  have "map (\<lambda>l. Ev REPORT nullptr (if texts then l else [])) (report_lines cfg' m t) =
      map (\<lambda>l. Ev REPORT nullptr (if texts then l else [])) (report_lines cfg m s)"
    using alike_report_lines[OF assms, of m]
    by (cases texts) (simp_all add: map_replicate_const)
  then show ?thesis
    using assms(1) by (simp add: alike_def report_def shown_emits fold_emit_fields)
qed

subsection \<open>The whole analysis\<close>

lemma alike_print_config: "alike texts (print_config cfg s) (print_config cfg' s)"
proof -
  have "shown texts (fold (emit CONFIG nullptr) ls s) = shown texts s" for ls
    by (rule fold_keeps[where g = "shown texts"]) (simp add: shown_def emit_def visible_def)
  then show ?thesis by (simp add: alike_def print_config_def fold_emit_fields)
qed

lemma alike_run: "switched texts cfg cfg' \<Longrightarrow> alike texts (run cfg m) (run cfg' m)"
  unfolding run_def phase2_def start_def
  by (intro alike_report alike_upward alike_forward alike_seed alike_build_targets alike_print_config)

lemma shown_True: "shown True s = filter visible (Log s)"
  by (simp add: shown_def)

lemma shown_kinds:
  "map (\<lambda>e. (ev_tag e, ev_value e)) (shown texts s) =
     map (\<lambda>e. (ev_tag e, ev_value e)) (filter visible (Log s))"
  by (simp add: shown_def comp_def)

lemma seed_alike:
  assumes "length (occurrences cfg m) < 2 ^ 32"
  shows "alike True (seed cfg m s)
      (if OccurrenceIndex cfg = 0 then fold (seed_one cfg m) (occurrences cfg m) s
       else if unat (OccurrenceIndex cfg) \<le> length (occurrences cfg m)
       then seed_one cfg m (occurrences cfg m ! (unat (OccurrenceIndex cfg) - 1)) s
       else s)"
proof -
  let ?q = "cfg\<lparr>Verbose := False\<rparr>"
  have sw: "switched True cfg ?q" "switched True ?q cfg" by (simp_all add: switched_def)
  let ?t = "\<lambda>cfg. if OccurrenceIndex cfg = 0 then fold (seed_one cfg m) (occurrences cfg m) s
       else if unat (OccurrenceIndex cfg) \<le> length (occurrences cfg m)
       then seed_one cfg m (occurrences cfg m ! (unat (OccurrenceIndex cfg) - 1)) s
       else s"
  have "seed ?q m s = ?t ?q"
    by (rule seed_picks_quiet) (use assms in \<open>simp_all add: occurrences_switch\<close>)
  moreover have "alike True (?t cfg) (?t ?q)"
    by (auto simp: occurrences_switch simp del: seed_one.simps
        intro!: fold_alike[where R = "alike True"] alike_seed_one sw)
  ultimately have "alike True (?t cfg) (seed ?q m s)" by simp
  moreover have "alike True (seed cfg m s) (seed ?q m s)" by (rule alike_seed[OF alike_refl sw(1)])
  ultimately show ?thesis by (simp add: alike_def)
qed

subsection \<open>Properties\<close>

text \<open>
  C23: \<open>Verbose\<close> and \<open>ApproxDebugInfo\<close> concern the output alone. Whatever they are, the
  analysis ends in the same state (what is tainted, killed, recorded and at which level) and
  prints the same sequence of messages about the same values, the report included; when only
  \<open>Verbose\<close> is changed, the texts of these messages are the same too. The verbose messages,
  those on the value taken from the worklist and the printed configuration are left out.
\<close>

theorem output_switches:
  "(run (cfg\<lparr>Verbose := b, ApproxDebugInfo := a\<rparr>) m)\<lparr>Log := []\<rparr> = (run cfg m)\<lparr>Log := []\<rparr>
   \<and> map (\<lambda>e. (ev_tag e, ev_value e)) (filter visible (Log (run (cfg\<lparr>Verbose := b, ApproxDebugInfo := a\<rparr>) m)))
       = map (\<lambda>e. (ev_tag e, ev_value e)) (filter visible (Log (run cfg m)))
   \<and> filter visible (Log (run (cfg\<lparr>Verbose := b\<rparr>) m)) = filter visible (Log (run cfg m))"
proof -
  have "alike False (run cfg m) (run (cfg\<lparr>Verbose := b, ApproxDebugInfo := a\<rparr>) m)"
    "alike True (run cfg m) (run (cfg\<lparr>Verbose := b\<rparr>) m)"
    by (intro alike_run, simp add: switched_def)+
  note h = this[unfolded alike_def]
  have "map (\<lambda>e. (ev_tag e, ev_value e)) (filter visible (Log (run (cfg\<lparr>Verbose := b, ApproxDebugInfo := a\<rparr>) m)))
      = map (\<lambda>e. (ev_tag e, ev_value e)) (filter visible (Log (run cfg m)))"
    by (simp only: shown_kinds[of False, symmetric] h(1))
  with h show ?thesis by (simp only: shown_True simp_thms)
qed

text \<open>
  C12: The search picks the occurrence asked for. With index 0 every occurrence of the constant
  in the named function is seeded, in program order and each instruction once; with index \<open>n\<close>
  exactly the \<open>n\<close>-th is, and nothing when there are fewer. This is the state the search ends
  in, and what it prints but for the verbose lines. (For fewer than \<open>2 ^ 32\<close> occurrences, the
  range of the counter.)
\<close>

theorem seed_picks_occurrence:
  assumes "length (occurrences cfg m) < 2 ^ 32"
  shows "let t =
      (if OccurrenceIndex cfg = 0 then fold (seed_one cfg m) (occurrences cfg m) s
       else if unat (OccurrenceIndex cfg) \<le> length (occurrences cfg m)
       then seed_one cfg m (occurrences cfg m ! (unat (OccurrenceIndex cfg) - 1)) s
       else s)
     in (seed cfg m s)\<lparr>Log := []\<rparr> = t\<lparr>Log := []\<rparr> \<and> filter visible (Log (seed cfg m s)) = filter visible (Log t)"
  using seed_alike[OF assms, of s] by (simp add: alike_def shown_True Let_def)

lemma seed_picks_occurrence_witness:
  "(seed (ex_cfg\<lparr>Verbose := True\<rparr>) ex_returns init_state)\<lparr>Log := []\<rparr> =
     (seed_source (ex_cfg\<lparr>Verbose := True\<rparr>) ex_returns 12 3 init_state)\<lparr>Log := []\<rparr>"
proof -
  have "occurrences (ex_cfg\<lparr>Verbose := True\<rparr>) ex_returns = [(12, 3)]"
    "OccurrenceIndex (ex_cfg\<lparr>Verbose := True\<rparr>) = 1" "TaintedValues init_state = []" by code_simp+
  with seed_picks_occurrence[of "ex_cfg\<lparr>Verbose := True\<rparr>" ex_returns init_state] show ?thesis
    by (simp add: Let_def)
qed

end
