(* ===== verification/Exactness.thy ===== *)
theory Exactness
  imports Switches
begin

text \<open>
  When the result is exact. \<open>Soundness\<close> bounds the taint state from above by \<open>flows\<close>; here the
  state is shown to reach that bound. Every occurrence of the constant is followed when it is
  seeded (\<open>closed_source\<close>) and stays so, the fixed point of phase 2 is closed under the rules
  of the forward phase, so an induction over \<open>flows\<close> finds every fact in the final state. What
  can keep it from the bound is in the hypotheses: a single occurrence asked for, a load left
  out because of a kill store or of the instruction order, and two different constants of the
  same value in one instruction.
\<close>

lemma set_occurrences: "(I, CI) \<in> set (occurrences cfg m) \<longleftrightarrow> source cfg m I CI"
  by (auto simp: occurrences_def inst_occurrences_def source_def split: if_splits)

subsection \<open>An occurrence that has been followed\<close>

definition closed_source :: "pass_params \<Rightarrow> llmodule \<Rightarrow> tstate \<Rightarrow> addr \<Rightarrow> addr \<Rightarrow> bool" where
  "closed_source cfg m s I CI =
     (I \<in> set (TaintedValues s)
      \<and> (as_ret m I = Some CI \<longrightarrow> func_of_inst m I \<noteq> nullptr \<longrightarrow>
           func_of_inst m I \<in> set (FunctionsReturningTaint s))
      \<and> (\<forall>v p. as_store m I = Some (v, p) \<longrightarrow> store_closed m s I p)
      \<and> (\<forall>F cv args j. InterprocMode cfg \<longrightarrow> as_call m I = Some (F, cv, args) \<longrightarrow> F \<noteq> nullptr \<longrightarrow>
           j < length args \<longrightarrow> args ! j = CI \<longrightarrow> \<not> is_declaration m F \<longrightarrow> j < length (args_of m F) \<longrightarrow>
           args_of m F ! j \<in> set (TaintedValues s)))"

lemma closed_source_mono:
  assumes "grows m s t" "closed_source cfg m s I CI"
  shows "closed_source cfg m t I CI"
  using assms(2) growsD(1,6)[OF assms(1)] store_closed_mono[OF assms(1)]
  unfolding closed_source_def by blast

lemma seed_return_closes:
  "as_ret m I = Some CI \<Longrightarrow> func_of_inst m I \<noteq> nullptr \<Longrightarrow>
     func_of_inst m I \<in> set (FunctionsReturningTaint (seed_return cfg m I CI s))"
  by (simp add: seed_return_def Let_def)

lemma seed_store_closes:
  assumes "as_store m I = Some (v, p)" "I \<in> set (TaintedValues s)"
  shows "store_closed m (seed_store cfg m I s) I p"
  using assms by (auto simp: seed_store_def store_closed_def tracked_origin_eq Let_def split_beta
      split: option.split)

lemma seed_call_closes:
  assumes "InterprocMode cfg" "as_call m I = Some (F, cv, args)" "F \<noteq> nullptr" "j < length args"
    "args ! j = CI" "\<not> is_declaration m F" "j < length (args_of m F)"
  shows "args_of m F ! j \<in> set (TaintedValues (seed_call cfg m I CI s))"
proof -
  let ?Q = "\<lambda>ja s. snd ja = CI \<longrightarrow> fst ja < length (args_of m F) \<longrightarrow>
      args_of m F ! fst ja \<in> set (TaintedValues s)"
  have "?Q (j, args ! j) (fold (seed_call_arg cfg m I CI F) (enumerate 0 args) s)"
  proof (rule fold_establishes[where Q = ?Q])
    show "?Q ja (seed_call_arg cfg m I CI F ja s)" for ja s
      using assms(1,6) by (cases ja) (auto simp: seed_call_arg_def taint_param_def Let_def)
    show "?Q ja (seed_call_arg cfg m I CI F jb s)" if "?Q ja s" for ja jb s
      using that growsD(1)[OF grows_seed_call_arg[of m s cfg I CI F jb]] by blast
    show "(j, args ! j) \<in> set (enumerate 0 args)"
      using assms(4) by (simp add: in_set_enumerate_eq)
  qed
  with assms show ?thesis by (simp add: seed_call_def)
qed

lemma seed_source_closes: "closed_source cfg m (seed_source cfg m I CI s) I CI"
proof -
  obtain x where eq: "seed_source cfg m I CI s =
      seed_call cfg m I CI (seed_store cfg m I (seed_return cfg m I CI x))"
    and x: "I \<in> set (TaintedValues x)"
    by (simp add: seed_source_def Let_def del: append.simps) 
  let ?r = "seed_return cfg m I CI x"
  let ?s = "seed_store cfg m I ?r"
  have gr: "grows m x ?r" by (intro grow_intros grows_refl)
  have gs: "grows m ?r ?s" by (intro grow_intros grows_refl)
  have gc: "grows m ?s (seed_call cfg m I CI ?s)" by (intro grow_intros grows_refl)
  note g = grows_trans[OF gs gc]
  have r: "I \<in> set (TaintedValues ?r)" using growsD(1)[OF gr] x by blast
  show ?thesis
    unfolding closed_source_def eq
    using r growsD(1,6)[OF g] seed_return_closes[of m I CI cfg x]
      store_closed_mono[OF gc seed_store_closes[OF _ r]] seed_call_closes
    by blast
qed

subsection \<open>All occurrences are followed\<close>

text \<open>What seeding one occurrence taints: the instruction and parameters.\<close>

lemma seed_source_taints:
  "set (TaintedValues (seed_source cfg m I CI s)) \<subseteq>
     insert I (set (TaintedValues s) \<union> (\<Union>F. set (args_of m F)))"
proof -
  have arg: "set (TaintedValues (seed_call_arg cfg m I CI F ja s)) \<subseteq>
      set (TaintedValues s) \<union> (\<Union>F. set (args_of m F))" for F ja s
    by (auto simp: seed_call_arg_def taint_param_def Let_def split: prod.split intro!: exI[of _ F])
  have args: "set (TaintedValues (fold (seed_call_arg cfg m I CI F) jas s)) \<subseteq>
      set (TaintedValues s) \<union> (\<Union>F. set (args_of m F))" for F jas s
    by (rule fold_sound[where I = "\<lambda>t. set (TaintedValues t) \<subseteq> set (TaintedValues s) \<union> (\<Union>F. set (args_of m F))"])
      (use arg in fastforce)+
  have ind: "TaintedValues (fold (seed_indirect_arg cfg m I CI) jas s) = TaintedValues s" for jas s
    by (rule fold_keeps) (simp add: seed_indirect_arg_def split: prod.split)
  have call: "set (TaintedValues (seed_call cfg m I CI s)) \<subseteq>
      set (TaintedValues s) \<union> (\<Union>F. set (args_of m F))" for s
    using args by (auto simp: seed_call_def ind split: option.split)
  have st: "TaintedValues (seed_store cfg m I s) = TaintedValues s" for s
    by (simp add: seed_store_def Let_def split: option.split prod.split)
  have rt: "TaintedValues (seed_return cfg m I CI s) = TaintedValues s" for s
    by (simp add: seed_return_def Let_def split: option.split)
  show ?thesis
    unfolding seed_source_def Let_def
    by (rule order_trans[OF call]) (auto simp: st rt)
qed

lemma source_universe: "source cfg m I CI \<Longrightarrow> I \<in> universe m"
  by (auto simp: source_def operands_of_def dest: inst_universe[OF sym] intro: inst_universe split: option.splits)

text \<open>
  The tainted instructions are the occurrences dealt with, as long as no instruction is a
  parameter; so the test that an instruction is not yet tainted leaves none out.
\<close>

lemma seeds_closed:
  assumes os: "\<And>I CI. (I, CI) \<in> set os \<Longrightarrow> I \<in> universe m"
    and unique: "\<And>I CI CI'. (I, CI) \<in> set os \<Longrightarrow> (I, CI') \<in> set os \<Longrightarrow> CI' = CI"
    and params: "\<And>I CI F. (I, CI) \<in> set os \<Longrightarrow> I \<notin> set (args_of m F)"
    and start: "TaintedValues s = []"
  shows "\<forall>(I, CI) \<in> set os. closed_source cfg m (fold (seed_one cfg m) os s) I CI"
proof -
  let ?ok = "\<lambda>s. \<forall>(I, CI) \<in> set os. I \<in> set (TaintedValues s) \<longrightarrow> closed_source cfg m s I CI"
  have step: "?ok (seed_one cfg m (J, CJ) s) \<and> grows m s (seed_one cfg m (J, CJ) s)
      \<and> J \<in> set (TaintedValues (seed_one cfg m (J, CJ) s))"
    if J: "(J, CJ) \<in> set os" and ok: "?ok s" for J CJ s
  proof (cases "J \<in> set (TaintedValues s)")
    case False
    let ?t = "seed_source cfg m J CJ s"
    have g: "grows m s ?t" by (intro grow_intros grows_refl os[OF J] False)
    have c: "closed_source cfg m ?t J CJ" by (rule seed_source_closes)
    have "closed_source cfg m ?t I CI" if "(I, CI) \<in> set os" "I \<in> set (TaintedValues ?t)" for I CI
    proof (cases "I = J")
      case True
      with c unique[OF J] that(1) show ?thesis by simp
    next
      case False
      with that seed_source_taints[of cfg m J CJ s] params have "I \<in> set (TaintedValues s)" by blast
      with ok that(1) show ?thesis by (blast intro: closed_source_mono[OF g])
    qed
    with g c False show ?thesis by (auto simp: closed_source_def)
  qed (use ok in simp)
  have "?ok (fold (seed_one cfg m) os' s) \<and> fst ` set os' \<subseteq> set (TaintedValues (fold (seed_one cfg m) os' s))
      \<and> grows m s (fold (seed_one cfg m) os' s)" if "set os' \<subseteq> set os" "?ok s" for os' s
    using that
  proof (induction os' arbitrary: s)
    case (Cons o_i os')
    obtain J CJ where o_i: "o_i = (J, CJ)" by fastforce
    have J: "(J, CJ) \<in> set os" using Cons.prems(1) o_i by simp
    note st = step[OF J Cons.prems(2)]
    let ?u = "fold (seed_one cfg m) os' (seed_one cfg m (J, CJ) s)"
    have IH: "?ok ?u" "fst ` set os' \<subseteq> set (TaintedValues ?u)" "grows m (seed_one cfg m (J, CJ) s) ?u"
      using Cons.IH[of "seed_one cfg m (J, CJ) s"] st Cons.prems(1) by simp_all
    then have "J \<in> set (TaintedValues ?u)" using st growsD(1)[OF IH(3)] by blast
    with IH grows_trans[OF _ IH(3)] st show ?case by (simp add: o_i del: seed_one.simps)
  qed (simp add: grows_refl)
  from this[OF order_refl, of s] start show ?thesis by force
qed

lemma seed_closes:
  assumes "OccurrenceIndex cfg = 0" "length (occurrences cfg m) < 2 ^ 32"
    and "\<And>I CI CI'. source cfg m I CI \<Longrightarrow> source cfg m I CI' \<Longrightarrow> CI' = CI"
    and "\<And>I CI F. source cfg m I CI \<Longrightarrow> I \<notin> set (args_of m F)"
    and "source cfg m I CI" "TaintedValues s = []"
  shows "closed_source cfg m (seed cfg m s) I CI"
proof -
  let ?t = "fold (seed_one cfg m) (occurrences cfg m) s"
  have "\<forall>(I, CI) \<in> set (occurrences cfg m). closed_source cfg m ?t I CI"
    by (rule seeds_closed) (use assms(3,4,6) in \<open>auto simp: set_occurrences intro: source_universe\<close>)
  with assms(5) have "closed_source cfg m ?t I CI" by (auto simp: set_occurrences)
  moreover have a: "alike True (seed cfg m s) ?t"
    using seed_alike[OF assms(2), of s] assms(1) by simp
  ultimately show ?thesis
    unfolding closed_source_def store_closed_def alike_fields[OF a] alike_reads(1)[OF a] by blast
qed

subsection \<open>The forward analysis is complete\<close>

text \<open>The facts of a state, for functions that exist.\<close>

definition holds :: "tstate \<Rightarrow> fact \<Rightarrow> bool" where
  "holds s f = (case f of
     Value V \<Rightarrow> V \<in> set (TaintedValues s)
   | Pointer P \<Rightarrow> P \<in> set (TaintedPointers s)
   | Returns F \<Rightarrow> F \<noteq> nullptr \<longrightarrow> F \<in> set (FunctionsReturningTaint s)
   | Param F i \<Rightarrow> F \<noteq> nullptr \<longrightarrow> (F, i) \<in> ptr_params s)"

lemma store_no_ret: "as_store m U = Some x \<Longrightarrow> as_ret m U = None"
  by (cases x) (simp add: as_op_iff as_ret_def)

lemma flows_hold:
  assumes "flows cfg m f" "\<not> UpwardInterprocMode cfg"
    and src: "\<And>I CI. source cfg m I CI \<Longrightarrow> closed_source cfg m s I CI"
    and uses: "\<And>V. V \<in> set (TaintedValues s) \<Longrightarrow> closed_value cfg m s V"
    and loads: "\<And>P I. P \<in> set (TaintedPointers s) \<Longrightarrow> I \<in> set (all_insts m) \<Longrightarrow> reads_pointer m I P \<Longrightarrow>
      I \<in> set (TaintedValues s)"
    and targets: "FunctionPointerTargets s = FunctionPointerTargets (build_targets cfg m init_state)"
  shows "holds s f"
proof -
  have us: "closed_use cfg m s V U" if "holds s (Value V)" "U \<in> set (users_of m V)" for V U
    using uses[of V] that by (simp add: holds_def closed_value_def)
  have marked: "U \<in> set (TaintedValues s)" if "holds s (Value V)" "U \<in> set (users_of m V)" "marks m V U" for V U
    using us[OF that(1,2)] that(3)
    by (auto simp: marks_def local_store_def closed_use_def store_closed_def split: option.splits if_splits)
  show ?thesis
    using assms(1)
  proof (induction rule: flows.induct)
    case (src_call I CI F cv args j)
    then show ?case using src[of I CI] unfolding closed_source_def holds_def by auto
  next
    case (call V U F cv args j)
    then have "call_closed cfg m s V U"
      using us[of V U] call_is_inst by (auto simp: closed_use_def)
    moreover have "F \<in> set (callees cfg m s F cv)" using call by (simp add: callees_def)
    ultimately show ?case using call unfolding call_closed_def holds_def by auto
  next
    case (indirect V U cv args j T)
    then have "call_closed cfg m s V U"
      using us[of V U] call_is_inst by (auto simp: closed_use_def)
    moreover have "T \<in> set (callees cfg m s nullptr cv)" using indirect by (simp add: callees_def targets)
    ultimately show ?case using indirect unfolding call_closed_def holds_def by auto
  next
    case (store V U p)
    then have "store_closed m s U p"
      using us[of V U] store_is_inst[of m U] store_no_ret[of m U] by (simp add: closed_use_def)
    then show ?case using store assms(2) by (auto simp: holds_def store_closed_def local_store_def)
  next
    case (store_param V U p)
    then have "store_closed m s U p"
      using us[of V U] store_is_inst[of m U] store_no_ret[of m U] by (simp add: closed_use_def)
    then show ?case using store_param assms(2) by (auto simp: holds_def store_closed_def)
  next
    case (ret V U)
    then show ?case using us[of V U] op_is_inst[of m U]
      by (auto simp: holds_def closed_use_def as_op_iff)
  next
    case (load P I)
    then show ?case using loads by (simp add: holds_def)
  qed (use src marked assms(2) in \<open>auto simp: holds_def closed_source_def store_closed_def local_store_def\<close>)
qed

lemma phase2_source:
  assumes "OccurrenceIndex cfg = 0" "length (occurrences cfg m) < 2 ^ 32"
    and "\<And>I CI CI'. source cfg m I CI \<Longrightarrow> source cfg m I CI' \<Longrightarrow> CI' = CI"
    and "\<And>I CI F. source cfg m I CI \<Longrightarrow> I \<notin> set (args_of m F)"
    and "source cfg m I CI"
  shows "closed_source cfg m (phase2 cfg m) I CI"
proof -
  have "closed_source cfg m (seed cfg m (start cfg m)) I CI"
    using start_no_taint[of cfg m] by (intro seed_closes assms) (auto simp: no_taint_def)
  then show ?thesis
    unfolding phase2_def by (rule closed_source_mono[rotated]) (intro grow_intros grows_refl)
qed

subsection \<open>Properties\<close>

text \<open>
  C4: The forward analysis is exact. Without the upward mode, when all occurrences are asked
  for and no load of a tainted pointer is left out (because of a kill store before it or
  because it stands before the instruction that tainted the pointer), the values and pointers
  tainted at the end of \<open>run\<close>, the functions recorded as returning taint and the recorded
  parameters are exactly the facts that \<open>flows\<close> derives from the occurrences of the constant.
  The module has fewer than \<open>2 ^ 32\<close> occurrences, no instruction holds two different constant
  operands of the tracked value, and no instruction is a parameter.
\<close>

theorem run_exact:
  assumes "\<not> UpwardInterprocMode cfg" "OccurrenceIndex cfg = 0" "length (occurrences cfg m) < 2 ^ 32"
    "\<And>I CI CI'. source cfg m I CI \<Longrightarrow> source cfg m I CI' \<Longrightarrow> CI' = CI"
    "\<And>I CI F. source cfg m I CI \<Longrightarrow> I \<notin> set (args_of m F)"
    "\<And>P I. P \<in> set (TaintedPointers (run cfg m)) \<Longrightarrow> I \<in> set (all_insts m) \<Longrightarrow> reads_pointer m I P \<Longrightarrow>
       \<not> after_kill m (KilledStores (run cfg m)) P I
       \<and> \<not> isLoadBeforeTaintOrigin m I P (PointerTaintOrigin (run cfg m))"
  shows "(V \<in> set (TaintedValues (run cfg m)) \<longleftrightarrow> flows cfg m (Value V))
     \<and> (P \<in> set (TaintedPointers (run cfg m)) \<longleftrightarrow> flows cfg m (Pointer P))
     \<and> (F \<noteq> nullptr \<longrightarrow> (F \<in> set (FunctionsReturningTaint (run cfg m)) \<longleftrightarrow> flows cfg m (Returns F))
          \<and> ((F, i) \<in> ptr_params (run cfg m) \<longleftrightarrow> flows cfg m (Param F i)))"
proof -
  have "upward cfg m (phase2 cfg m) = phase2 cfg m"
    by (rule run_no_upward) (simp add: upward_runs_def assms(1))
  note end_state = run_fields[of cfg m, unfolded this]
  have "holds (phase2 cfg m) f" if "flows cfg m f" for f
  proof (rule flows_hold[OF that assms(1)])
    show "closed_source cfg m (phase2 cfg m) I CI" if "source cfg m I CI" for I CI
      by (rule phase2_source[OF assms(2-5) that])
    show "I \<in> set (TaintedValues (phase2 cfg m))"
      if "P \<in> set (TaintedPointers (phase2 cfg m))" "I \<in> set (all_insts m)" "reads_pointer m I P" for P I
      using phase2_end(3)[OF that(1)] that assms(6)[of P I]
      by (auto simp: scanned_def killed_before_def end_state)
    show "FunctionPointerTargets (phase2 cfg m) = FunctionPointerTargets (build_targets cfg m init_state)"
      unfolding phase2_def by (intro soundD(6) sound_forward sound_seed start_sound)
  qed (rule phase2_end(2))
  then have complete: "flows cfg m f \<Longrightarrow> holds (phase2 cfg m) f" for f .
  show ?thesis
    using complete[of "Value V"] complete[of "Pointer P"] complete[of "Returns F"] complete[of "Param F i"]
      soundD(1,3,4)[OF run_sound] sound_ptr_params[OF run_sound]
    by (auto simp: holds_def end_state)
qed

lemma run_exact_witness:
  "flows ex_forward_cfg ex_calls (Value 18) \<and> \<not> flows ex_forward_cfg ex_calls (Value 8)"
proof -
  let ?c = ex_forward_cfg and ?m = ex_calls
  have occ: "occurrences ?c ?m = [(22, 3)]" by code_simp
  have run: "TaintedPointers (run ?c ?m) = [12]" "KilledStores (run ?c ?m) = []"
    "PointerTaintOrigin (run ?c ?m) = [(12, 16)]"
    "18 \<in> set (TaintedValues (run ?c ?m))" "8 \<notin> set (TaintedValues (run ?c ?m))" by code_simp+
  have loads: "filter (\<lambda>I. reads_pointer ?m I 12) (all_insts ?m) = [18]"
    "\<not> isLoadBeforeTaintOrigin ?m 18 12 [(12, 16)]" "\<not> after_kill ?m [] 12 18" by code_simp+
  have src: "I = 22 \<and> CI = 3" if "source ?c ?m I CI" for I CI
    using that by (simp add: set_occurrences[symmetric] occ)
  have "(V \<in> set (TaintedValues (run ?c ?m)) \<longleftrightarrow> flows ?c ?m (Value V))
     \<and> (P \<in> set (TaintedPointers (run ?c ?m)) \<longleftrightarrow> flows ?c ?m (Pointer P))
     \<and> (F \<noteq> nullptr \<longrightarrow> (F \<in> set (FunctionsReturningTaint (run ?c ?m)) \<longleftrightarrow> flows ?c ?m (Returns F))
          \<and> ((F, i) \<in> ptr_params (run ?c ?m) \<longleftrightarrow> flows ?c ?m (Param F i)))" for V P F i
  proof (rule run_exact)
    show "\<not> UpwardInterprocMode ?c" "OccurrenceIndex ?c = 0" by code_simp+
    show "length (occurrences ?c ?m) < 2 ^ 32" by (simp add: occ)
    show "CI' = CI" if "source ?c ?m I CI" "source ?c ?m I CI'" for I CI CI' using src that by blast
    show "I \<notin> set (args_of ?m F)" if "source ?c ?m I CI" for I CI F
      using src[OF that] by (simp add: args_of_def func_of_def ex_calls_def)
    show "\<not> after_kill ?m (KilledStores (run ?c ?m)) P I
        \<and> \<not> isLoadBeforeTaintOrigin ?m I P (PointerTaintOrigin (run ?c ?m))"
      if "P \<in> set (TaintedPointers (run ?c ?m))" "I \<in> set (all_insts ?m)" "reads_pointer ?m I P" for P I
    proof -
      have "P = 12" using that(1) by (simp add: run)
      moreover from this that(2,3) have "I \<in> set (filter (\<lambda>I. reads_pointer ?m I 12) (all_insts ?m))" by simp
      ultimately show ?thesis unfolding loads(1) run using loads by simp
    qed
  qed
  with run(4,5) show ?thesis by blast
qed

end
