(* ===== verification/Report_Order.thy ===== *)
theory Report_Order
  imports Report_Facts "HOL-Library.Multiset"
begin

text \<open>
  The report does not depend on the order in which the hash tables hold their entries: it
  prints sorted lists, numbers and lookups only. Two states with the same entries, in whatever
  order, give the same lines, as long as the functions visited have different names.
\<close>

subsection \<open>States with the same content\<close>

definition same_content :: "tstate \<Rightarrow> tstate \<Rightarrow> bool" where
  "same_content s t = (set (TaintedValues t) = set (TaintedValues s)
     \<and> mset (ValueLevel t) = mset (ValueLevel s)
     \<and> distinct (map fst (ValueLevel s))
     \<and> map_of (FunctionLevel t) = map_of (FunctionLevel s))"

lemma mset_map_of:
  assumes "mset xs = mset ys" "distinct (map fst ys)"
  shows "map_of xs = map_of ys"
proof -
  have "distinct (map fst xs)"
    using assms by (metis mset_eq_imp_distinct_iff mset_map)
  then show ?thesis
    using assms map_of_inject_set mset_eq_setD by blast
qed

lemma same_contentD:
  assumes "same_content s t"
  shows "set (TaintedValues t) = set (TaintedValues s)" "mset (ValueLevel t) = mset (ValueLevel s)"
    "set (ValueLevel t) = set (ValueLevel s)" "map_of (ValueLevel t) = map_of (ValueLevel s)"
    "map_of (FunctionLevel t) = map_of (FunctionLevel s)"
  using assms mset_map_of[of "ValueLevel t" "ValueLevel s"]
  by (auto simp: same_content_def dest: mset_eq_setD)

lemma level_step_commute: "level_step T x \<circ> level_step T y = level_step T y \<circ> level_step T x"
  by (rule ext) (auto simp: level_step_def split: prod.split)

lemma max_level_order: "same_content s t \<Longrightarrow> max_level t = max_level s"
proof -
  assume a: "same_content s t"
  have "level_step (TaintedValues t) = level_step (TaintedValues s)"
    using same_contentD(1)[OF a] by (simp add: level_step_def fun_eq_iff)
  moreover have "fold (level_step T) (ValueLevel t) = fold (level_step T) (ValueLevel s)" for T
    using level_step_commute same_contentD(2)[OF a] by (intro fold_multiset_equiv) auto
  ultimately show ?thesis by (simp add: max_level_steps)
qed

lemma visited_order:
  assumes "same_content s t"
  shows "set (visited_functions m t) = set (visited_functions m s)"
    "mset (visited_functions m t) = mset (visited_functions m s)"
    "length (visited_functions m t) = length (visited_functions m s)"
proof -
  show s: "set (visited_functions m t) = set (visited_functions m s)"
    by (simp add: visited_functions_set(1) same_contentD[OF assms])
  then show "mset (visited_functions m t) = mset (visited_functions m s)"
    by (simp add: visited_functions_set(2) flip: set_eq_iff_mset_eq_distinct)
  then show "length (visited_functions m t) = length (visited_functions m s)"
    by (metis size_mset)
qed

subsection \<open>The values of the largest level\<close>

lemma max_entry_order: "same_content s t \<Longrightarrow> max_entry t = max_entry s"
  by (rule ext)+ (simp add: max_entry_def same_contentD)

lemma collect_order:
  assumes "same_content s t"
  shows "mset (MaxLevelInstructions (collect_max m t L)) = mset (MaxLevelInstructions (collect_max m s L))"
    "mset (MaxLevelArguments (collect_max m t L)) = mset (MaxLevelArguments (collect_max m s L))"
    "mset (MaxLevelCountPerFunction (collect_max m t L)) = mset (MaxLevelCountPerFunction (collect_max m s L))"
proof -
  note c = max_entry_order[OF assms] same_contentD[OF assms]
  show "mset (MaxLevelInstructions (collect_max m t L)) = mset (MaxLevelInstructions (collect_max m s L))"
    "mset (MaxLevelArguments (collect_max m t L)) = mset (MaxLevelArguments (collect_max m s L))"
    by (simp_all add: collect_max_insts collect_max_args c)
  let ?t = "MaxLevelCountPerFunction (collect_max m t L)"
  let ?s = "MaxLevelCountPerFunction (collect_max m s L)"
  have dom: "fst ` set ?t = fst ` set ?s"
    by (simp add: collect_max_dom c)
  have num: "length (filter P (ValueLevel t)) = length (filter P (ValueLevel s))" for P
    using c(3) by (metis mset_filter size_mset)
  have "map_of ?t F = map_of ?s F" for F
  proof (cases "F \<in> fst ` set ?s")
    case True
    then have "F \<noteq> nullptr" by (auto simp: collect_max_dom)
    then have "dm_get 0 ?t F = dm_get 0 ?s F"
      by (simp add: collect_max_counts c num)
    moreover have "F \<in> dom (map_of ?t)" "F \<in> dom (map_of ?s)"
      using True dom by (simp_all add: dom_map_of_conv_image_fst)
    ultimately show ?thesis by (auto simp: dm_get_def)
  next
    case False
    then have "map_of ?s F = None" "map_of ?t F = None"
      using dom by (simp_all add: map_of_eq_None_iff)
    then show ?thesis by simp
  qed
  then have "set ?t = set ?s"
    using collect_max_distinct map_of_inject_set by blast
  then show "mset ?t = mset ?s"
    using collect_max_distinct[of m t L] collect_max_distinct[of m s L]
    by (simp add: distinct_map set_eq_iff_mset_eq_distinct)
qed

subsection \<open>What is printed from them\<close>

lemma full_span_order: "mset fs = mset gs \<Longrightarrow> full_span_lines m fs = full_span_lines m gs"
proof -
  assume a: "mset fs = mset gs"
  have names: "map (fun_name m) (sort_key (fun_name m) hs) = sort (map (fun_name m) hs)" for hs
    by (rule properties_for_sort[symmetric]) simp_all
  have "full_span_lines m hs = map (\<lambda>n. n @ '', full span'') (sort (map (fun_name m) hs))" for hs
    by (simp add: full_span_lines_def flip: names)
  moreover have "sort (map (fun_name m) fs) = sort (map (fun_name m) gs)"
  proof (rule properties_for_sort)
    show "mset (sort (map (fun_name m) gs)) = mset (map (fun_name m) fs)" using a by simp
  qed simp
  ultimately show ?thesis by simp
qed

lemma breakdown_order:
  assumes "mset c = mset d" "distinct (map fst d)" "inj_on (fun_name m) (fst ` set d)"
  shows "function_breakdown m c = function_breakdown m d"
proof -
  have "inj_on (\<lambda>e. fun_name m (fst e)) (set d)"
    using assms(2,3) comp_inj_on[of fst "set d" "fun_name m"] by (simp add: distinct_map comp_def)
  then have "by_name m d = by_name m c"
    unfolding by_name_def using assms(1)
    by (intro sort_key_inj_key_eq) simp_all
  moreover have "length c = length d" using assms(1) by (metis size_mset)
  ultimately show ?thesis by (simp add: function_breakdown_def)
qed

lemma ranges_order:
  assumes "same_content s t" "dom (map_of c) = dom (map_of d)" "set A = set B"
  shows "function_ranges m t L c A = function_ranges m s L d B"
proof -
  have "at_max_level t L = at_max_level s L"
    by (rule ext) (simp add: at_max_level_def dm_get_def same_contentD[OF assms(1)])
  then have "function_range t L c A = function_range s L d B"
    by (intro ext) (simp add: function_range_def assms(2,3))
  then show ?thesis by (simp add: function_ranges_def)
qed

lemma earliest_order: "set M = set N \<Longrightarrow> earliest_latest m M = earliest_latest m N"
  by (simp add: earliest_latest_def)

lemma counts_order:
  "set A = set B \<Longrightarrow> count_instructions m A r = count_instructions m B r"
  "set A = set B \<Longrightarrow> dom (map_of c) = dom (map_of d) \<Longrightarrow>
     count_instructions_arguments m A c = count_instructions_arguments m B d"
proof -
  assume s: "set A = set B"
  then have "count_range A r = count_range B r"
    by (intro ext) (simp add: count_range_def)
  then show "count_instructions m A r = count_instructions m B r" by (simp add: count_instructions_def)
  assume "dom (map_of c) = dom (map_of d)"
  with s have "count_whole A c = count_whole B d"
    by (intro ext) (simp add: count_whole_def split: prod.split)
  then show "count_instructions_arguments m A c = count_instructions_arguments m B d"
    by (simp add: count_instructions_arguments_def)
qed

lemma text_order: "same_content s t \<Longrightarrow> instruction_text cfg m t = instruction_text cfg m s"
  by (rule ext) (simp add: instruction_text_def func_level_def getFuncLevel_def getLevel_def
      dm_get_def same_contentD split: option.split vkind.split)

subsection \<open>Properties\<close>

text \<open>
  C6: The report does not depend on the order of the hash tables. Two states with the same
  tainted values, the same levels of values and of functions, held in any order, give the same
  lines, provided that the functions visited have different names.
\<close>

theorem report_order_irrelevant:
  assumes "set (TaintedValues t) = set (TaintedValues s)" "mset (ValueLevel t) = mset (ValueLevel s)"
    "map_of (FunctionLevel t) = map_of (FunctionLevel s)"
    "distinct (map fst (ValueLevel s))" "inj_on (fun_name m) (set (visited_functions m s))"
  shows "report_lines cfg m t = report_lines cfg m s"
proof -
  have a: "same_content s t" using assms by (simp add: same_content_def)
  let ?L = "max_level s"
  let ?t = "collect_max m t ?L" and ?s = "collect_max m s ?L"
  note c = collect_order[OF a, of m ?L]
  have len: "length (MaxLevelInstructions ?t) = length (MaxLevelInstructions ?s)"
    "length (MaxLevelArguments ?t) = length (MaxLevelArguments ?s)"
    "length (MaxLevelCountPerFunction ?t) = length (MaxLevelCountPerFunction ?s)"
    using c by (metis size_mset)+
  have empty: "(MaxLevelInstructions ?t = []) = (MaxLevelInstructions ?s = [])"
    "(MaxLevelArguments ?t = []) = (MaxLevelArguments ?s = [])"
    using len by (metis length_0_conv)+
  have keys: "dom (map_of (MaxLevelCountPerFunction ?t)) = dom (map_of (MaxLevelCountPerFunction ?s))"
    using mset_eq_setD[OF c(3)] by (simp add: dom_map_of_conv_image_fst)
  have bd: "function_breakdown m (MaxLevelCountPerFunction ?t) = function_breakdown m (MaxLevelCountPerFunction ?s)"
    by (rule breakdown_order[OF c(3) collect_max_distinct])
      (rule inj_on_subset[OF assms(5) counts_visited])
  note same = max_level_order[OF a] visited_order(3)[OF a] len bd text_order[OF a]
    ranges_order[OF a keys visited_order(1)[OF a]] earliest_order[OF mset_eq_setD[OF c(1)]]
    counts_order(1)[OF visited_order(1)[OF a]] counts_order(2)[OF visited_order(1)[OF a] keys]
  have fil: "full_span_lines m (filter P (visited_functions m t)) = full_span_lines m (filter P (visited_functions m s))"
    "full_span_lines m (map fst (MaxLevelCountPerFunction ?t)) = full_span_lines m (map fst (MaxLevelCountPerFunction ?s))" for P
    using visited_order(2)[OF a, of m] c(3) by (intro full_span_order; simp)+
  have "report_instructions cfg m t ?L ?t = report_instructions cfg m s ?L ?s"
    by (simp only: report_instructions_def earliest_latest_lines_def Let_def same fil)
  moreover have "report_arguments m t ?L ?t = report_arguments m s ?L ?s"
    by (simp only: report_arguments_def Let_def same fil dm_count_iff keys)
  ultimately show ?thesis
    by (simp only: report_lines_def same(1) empty Let_def)
qed

lemma report_order_irrelevant_witness:
  "report_lines ex_cfg ex_returns (ex_state\<lparr>TaintedValues := [12, 14], ValueLevel := [(14, 0), (12, 0)]\<rparr>)
     = report_lines ex_cfg ex_returns ex_state"
proof -
  have "TaintedValues ex_state = [14, 12] \<or> TaintedValues ex_state = [12, 14]"
    "ValueLevel ex_state = [(12, 0), (14, 0)]" "visited_functions ex_returns ex_state = [1]" by code_simp+
  then show ?thesis
    by (intro report_order_irrelevant) auto
qed

end
