(* ===== verification/Report_Totals.thy ===== *)
theory Report_Totals
  imports Report_Facts
begin

text \<open>
  The two instruction counters over all functions. The instructions counted for a function
  that holds values of the largest level are those left after dropping, at both ends, the ones
  without that level; the other visited functions are counted whole.
\<close>

definition trimmed :: "('a \<Rightarrow> bool) \<Rightarrow> 'a list \<Rightarrow> 'a list" where
  "trimmed P xs = rev (dropWhile (\<lambda>x. \<not> P x) (rev (dropWhile (\<lambda>x. \<not> P x) xs)))"

lemma last_filter_takes:
  assumes "filter P ys \<noteq> []"
  obtains w v where "ys = w @ v" "rev (dropWhile (\<lambda>x. \<not> P x) (rev ys)) = w" "w \<noteq> []"
    "last w = last (filter P ys)"
proof -
  let ?d = "dropWhile (\<lambda>x. \<not> P x) (rev ys)"
  have "ys = rev ?d @ rev (takeWhile (\<lambda>x. \<not> P x) (rev ys))"
    by (metis rev_append rev_rev_ident takeWhile_dropWhile_id)
  moreover have ne: "?d \<noteq> []"
    using assms by (auto simp: dropWhile_eq_Nil_conv filter_empty_conv)
  moreover have "hd ?d = last (filter P ys)"
  proof -
    have "P (hd ?d)" using hd_dropWhile[OF ne] by blast
    then have "filter P (rev ys) = hd ?d # filter P (tl ?d)"
      using ne by (subst takeWhile_dropWhile_id[of "\<lambda>x. \<not> P x" "rev ys", symmetric],
          cases ?d) (auto simp del: takeWhile_dropWhile_id simp: filter_empty_conv dest: set_takeWhileD)
    then show ?thesis by (metis hd_rev list.sel(1) rev_filter)
  qed
  ultimately show ?thesis
    by (intro that[of "rev ?d" "rev (takeWhile (\<lambda>x. \<not> P x) (rev ys))"]) (simp_all add: last_rev)
qed

text \<open>The range of a function is the pair of ends of its trimmed instructions.\<close>

lemma range_of_trimmed:
  assumes "range_of P is = Some (a, b)"
  obtains u v where "is = u @ trimmed P is @ v" "trimmed P is \<noteq> []" "hd (trimmed P is) = a"
    "last (trimmed P is) = b"
proof -
  let ?d = "dropWhile (\<lambda>x. \<not> P x) is"
  have f: "filter P is \<noteq> []" "hd (filter P is) = a" "last (filter P is) = b"
    using assms by (auto simp: range_of_def split: list.splits)
  have ne: "?d \<noteq> []" using f(1) by (auto simp: dropWhile_eq_Nil_conv filter_empty_conv)
  have fd: "filter P is = filter P ?d"
    by (subst takeWhile_dropWhile_id[of "\<lambda>x. \<not> P x" "is", symmetric])
      (auto simp del: takeWhile_dropWhile_id simp: filter_empty_conv dest: set_takeWhileD)
  have hd: "hd ?d = a"
    using hd_dropWhile[OF ne] f(2) ne fd by (cases ?d) auto
  obtain w v where w: "?d = w @ v" "rev (dropWhile (\<lambda>x. \<not> P x) (rev ?d)) = w" "w \<noteq> []"
      "last w = last (filter P ?d)"
    using last_filter_takes[of P ?d] f(1) fd by metis
  then have "trimmed P is = w" by (simp add: trimmed_def)
  moreover have "hd w = a" using hd w(1,3) by simp
  moreover have "is = takeWhile (\<lambda>x. \<not> P x) is @ w @ v" using w(1) by (metis takeWhile_dropWhile_id)
  ultimately show ?thesis using w(3,4) f(3) fd by (intro that[of _ v]) simp_all
qed

lemma count_span_trimmed:
  assumes "range_of P is = Some (a, b)" "distinct is"
  shows "count_span a b False n is = n + of_nat (length (trimmed P is))"
proof -
  obtain u v where uv: "is = u @ trimmed P is @ v" "trimmed P is \<noteq> []" "hd (trimmed P is) = a"
      "last (trimmed P is) = b"
    by (rule range_of_trimmed[OF assms(1)])
  let ?w = "trimmed P is"
  let ?i = "length u" and ?j = "length u + (length ?w - 1)"
  have "is ! ?i = (?w @ v) ! 0" by (subst uv(1)) (simp only: nth_append_length_plus[of u _ 0, simplified])
  then have i: "is ! ?i = a" using uv(2,3) by (simp add: nth_append hd_conv_nth)
  have "is ! ?j = (?w @ v) ! (length ?w - 1)" by (subst uv(1)) (simp only: nth_append_length_plus)
  then have j: "is ! ?j = b" using uv(2,4) by (simp add: nth_append last_conv_nth)
  have "length is = length u + length ?w + length v"
    by (subst uv(1)) simp
  then have "?j < length is" using uv(2) by (cases ?w) auto
  from count_span_eq[OF assms(2) _ this, of ?i n] show ?thesis
    using uv(2) by (simp add: i j[unfolded One_nat_def])
qed

subsection \<open>The totals\<close>

text \<open>The ranges the statistics use: of the values of the largest level, in the functions visited.\<close>

definition ranges_at :: "llmodule \<Rightarrow> tstate \<Rightarrow> int \<Rightarrow> (addr, addr \<times> addr) dmap" where
  "ranges_at m s L = function_ranges m s L (MaxLevelCountPerFunction (collect_max m s L)) (visited_functions m s)"

lemma count_range_trimmed:
  assumes "distinct (map faddr (defined_functions m))" "f \<in> set (defined_functions m)"
    "distinct (func_insts f)" "nullptr \<notin> set (func_insts f)"
  shows "count_range (visited_functions m s) (ranges_at m s L) f (mc, oc) =
     (if faddr f \<in> dom (map_of (ranges_at m s L))
      then (mc + of_nat (length (trimmed (at_max_level s L) (func_insts f))), oc)
      else if faddr f \<in> set (visited_functions m s) then (mc, oc + of_nat (length (func_insts f)))
      else (mc, oc))"
proof (cases "map_of (ranges_at m s L) (faddr f)")
  case None
  then show ?thesis by (simp add: count_range_def count_all_eq domIff)
next
  case (Some r)
  then have "faddr f \<in> set (visited_functions m s)"
    using function_ranges_dom(1) unfolding ranges_at_def by (metis image_subset_iff map_of_SomeD fst_conv)
  moreover have "range_of (at_max_level s L) (func_insts f) = Some r"
    using Some function_ranges_get[OF assms(1,2,4)] unfolding ranges_at_def by (metis option.distinct(1))
  ultimately show ?thesis
    using Some count_span_trimmed[OF _ assms(3)] by (cases r) (auto simp: count_range_def dm_get_def)
qed

subsection \<open>Properties\<close>

text \<open>
  C34: The instruction counts. The first counter is the number of instructions in the spans of
  the functions that have one, each from its first to its last instruction of the largest
  level; the second is the number of instructions of the other functions visited, counted
  whole. Both are modulo \<open>2 ^ 32\<close>.
\<close>

theorem instruction_totals:
  assumes "distinct (map faddr (defined_functions m))"
    "\<And>f. f \<in> set (defined_functions m) \<Longrightarrow> distinct (func_insts f) \<and> nullptr \<notin> set (func_insts f)"
  shows "count_instructions m (visited_functions m s) (ranges_at m s L) =
    (of_nat (\<Sum>f \<leftarrow> filter (\<lambda>f. faddr f \<in> dom (map_of (ranges_at m s L))) (defined_functions m).
        length (trimmed (at_max_level s L) (func_insts f))),
     of_nat (\<Sum>f \<leftarrow> filter (\<lambda>f. faddr f \<in> set (visited_functions m s)
          \<and> faddr f \<notin> dom (map_of (ranges_at m s L))) (defined_functions m).
        length (func_insts f)))"
proof -
  let ?R = "dom (map_of (ranges_at m s L))" and ?A = "visited_functions m s"
  have "fold (count_range ?A (ranges_at m s L)) fs (mc, oc) =
     (mc + of_nat (\<Sum>f \<leftarrow> filter (\<lambda>f. faddr f \<in> ?R) fs. length (trimmed (at_max_level s L) (func_insts f))),
      oc + of_nat (\<Sum>f \<leftarrow> filter (\<lambda>f. faddr f \<in> set ?A \<and> faddr f \<notin> ?R) fs. length (func_insts f)))"
    if "set fs \<subseteq> set (defined_functions m)" for fs mc oc
    using that
  proof (induction fs arbitrary: mc oc)
    case (Cons f fs)
    then have "count_range ?A (ranges_at m s L) f (mc, oc) =
       (if faddr f \<in> ?R then (mc + of_nat (length (trimmed (at_max_level s L) (func_insts f))), oc)
        else if faddr f \<in> set ?A then (mc, oc + of_nat (length (func_insts f))) else (mc, oc))"
      using assms by (intro count_range_trimmed) auto
    with Cons show ?case by (simp add: domIff del: not_None_eq)
  qed simp
  from this[OF subset_refl, of 0 0] show ?thesis by (simp add: count_instructions_def)
qed

lemma instruction_totals_witness:
  "count_instructions ex_returns (visited_functions ex_returns ex_state) (ranges_at ex_returns ex_state 0) = (3, 0)"
proof -
  have "distinct (func_insts f) \<and> nullptr \<notin> set (func_insts f)" if "f \<in> set (defined_functions ex_returns)" for f
    using that by (auto simp: defined_functions_def ex_returns_def func_insts_def)
  moreover have "distinct (map faddr (defined_functions ex_returns))"
    "ranges_at ex_returns ex_state 0 = [(1, 12, 14)]" "visited_functions ex_returns ex_state = [1]"
    "(\<Sum>f \<leftarrow> filter (\<lambda>f. faddr f = 1) (defined_functions ex_returns).
        length (trimmed (at_max_level ex_state 0) (func_insts f))) = 3"
    "filter (\<lambda>f. faddr f = 1 \<and> faddr f \<noteq> 1) (defined_functions ex_returns) = []"
    by code_simp+
  ultimately show ?thesis
    using instruction_totals[of ex_returns ex_state 0] by simp
qed

end
