(* ===== verification/Spec2Isabelle.thy ===== *)
theory Spec2Isabelle
  imports Levels Typing Reachability Seed_Facts Switches Exactness Report_Order Report_Totals
begin

text \<open>
  The taint tracker of this repository, \<open>src/passes/TaintTrackerPass/TaintTrackerPass.cpp\<close>:
  an LLVM module pass that follows a constant from one function through the module and
  reports which instructions it reaches, at which interprocedural distance (the level), and
  which span of each function that covers. This development models the pass from the parsing
  of its parameters to its last line of output and proves what its result means.

  The program. \<open>run\<close> is one method: it prints the configuration and builds the map of
  function pointer targets (\<open>start\<close>), searches the named function for the constant and
  taints what uses it (phase 1, \<open>seed\<close>), propagates along uses, stores, loads and calls with
  a worklist until nothing changes (phase 2, \<open>forward\<close>), carries taint from callees to
  callers (phase 5, \<open>upward\<close>) and prints statistics (\<open>report\<close>). Its local variables are the
  record \<open>tstate\<close>; what it prints is the field \<open>Log\<close>. The phases are functions from state to
  state, each made of one definition per loop body, branch or helper method of the source, in
  the order of the source and under its names.

  The theories.
    \<^item> \<open>Prelude\<close>: printing of numbers, searching in lists, the scans of a basic block for two
      instructions, rules for \<open>fold\<close>, and the locales \<open>keeps_preorder\<close> and \<open>keeps_invariant\<close>:
      a step that keeps a preorder or an invariant, and what follows for the loops over it.
    \<^item> \<open>Containers\<close>: \<open>DenseSet\<close> and \<open>DenseMap\<close> as lists behind the interfaces \<open>dense_set\<close> and
      \<open>dense_map\<close>. No proof and no definition rests on their order: the code sorts before it
      iterates, or only counts.
    \<^item> \<open>LLVM_IR\<close>: the module as the pass reads it, a finite table of values. It is an argument of
      every definition, with no assumption: users need not agree with operands, types need not
      be sound, chains may be cyclic. Properties that need more say so.
    \<^item> \<open>Example\<close>: five small modules used by the witnesses.
    \<^item> \<open>Params\<close>, \<open>Printing\<close>: the parsing callback and \<open>pass_params\<close>; \<open>getValueName\<close>,
      \<open>getDebugLoc\<close>, \<open>getLevel\<close>, \<open>getFuncLevel\<close>, \<open>getFuncLevelForValue\<close>.
    \<^item> \<open>Origins\<close>, \<open>Patterns\<close>: \<open>derivesFromPointerParameter\<close>, \<open>extractStructFieldIndices\<close>,
      \<open>getPointerParameterOrigin\<close>; \<open>sameGEPPattern\<close>, \<open>getSortedUsers\<close>, \<open>isLoadBeforeTaintOrigin\<close>.
    \<^item> \<open>Taint_State\<close>, \<open>Stores\<close>, \<open>Load_Scan\<close>, \<open>Targets\<close>: the state and its primitive updates,
      \<open>processStoreForTaint\<close>, \<open>scanLoadsFromTaintedPointers\<close>, the function pointer map.
    \<^item> \<open>Seed\<close>, \<open>Seed_Facts\<close>: phase 1; \<open>Forward\<close>, \<open>Forward_Loop\<close>: phase 2 with the kill stores;
      \<open>Upward\<close>, \<open>Upward_Loop\<close>: phase 5; \<open>Report\<close>, \<open>Report_Facts\<close>, \<open>Report_Totals\<close>,
      \<open>Report_Order\<close>: the statistics; \<open>Analysis\<close>: \<open>run\<close>.
    \<^item> \<open>Closure\<close>, \<open>Reachability\<close>, \<open>Upward_Closure\<close>, \<open>Soundness\<close>, \<open>Exactness\<close>: what the loops compute;
      \<open>Invariants\<close>, \<open>Levels\<close>: what every step of the run keeps; \<open>Typing\<close>: what kind of thing is
      tainted, recorded and counted; \<open>Switches\<close>: what the output switches change, as a relation
      between two runs.

  What is shown. The abstract specification of the analysis is \<open>flows\<close> in \<open>Soundness\<close>, the
  least relation closed under the ways taint travels in the modes that are on, with no state,
  order or worklist: what \<open>run\<close> taints and records is inside it (C1), and with the
  interprocedural modes off that is inside the named function (C21). In the other direction
  the final states are closed: under uses (C2), and phase by phase under stores, calls,
  returns, loads and callers (C3, C5, C7 to C10), with every exception the code makes written
  in the statement. Both together make the forward analysis exact (C4): it computes \<open>flows\<close>,
  when no load is left out for the order of the instructions. The proofs are worklist invariants
  (every tainted value is on the worklist or its uses are dealt with) carried by rules
  collected in \<open>grow_intros\<close> and \<open>push_intros\<close>. Emptying the worklist is reachability in a graph that no state enters (C40).
  The invariants of the state (behind C14, C15, C26, C38) are instances of the locale
  \<open>step_invariant\<close>, which passes what every update keeps to the run. With \<open>flows\<close> they give what
  the statistics count: every tainted value of a level, once (C14), but no load that has no
  level (C26). Malformed pass names are read with the defaults of the code (C28). Two results compare runs:
  \<open>Verbose\<close> and \<open>ApproxDebugInfo\<close> change nothing but output (C23), by a relation that every
  operation keeps, with rules in \<open>alike_intros\<close>; and the report does not depend on the order
  of the hash tables it walks (C6). The helper methods are compared with plain specifications
  (C18 to C31 but C21, C23, C26, C28), the statistics with the program order of the instructions they are
  about (C32 to C37).

  Loops. None has fuel. The worklist loops end because a tainted value enters the worklist
  once (\<open>potential\<close>), \<open>while (changed)\<close> because each round but the last taints a value or a
  pointer of the module (\<open>untainted\<close>), the load loop of phase 5 because it scans a pointer
  once (\<open>mark_size\<close>), the recursion over callers because each round discovers a function or a
  parameter (\<open>undiscovered\<close>), and the two pointer searches because they keep a visited set.
  \<open>derivesFromPointerParameter\<close>, which nothing calls, keeps none: it is a partial function,
  and \<open>derives_terminates\<close> gives the condition under which it returns.

  Numbers. \<open>unsigned\<close> counters and indices are 32-bit words. Levels are \<open>int\<close>, unbounded here:
  C38 bounds them by the number of things found, so the C++ \<open>int\<close> cannot overflow on a module
  that fits in memory. The constant is compared sign-extended; it is unbounded here too, and
  only compared and printed.

  Not modelled. LLVM itself: building the module table, and the methods of \<open>StringRef\<close>, which
  are the record \<open>stringref\<close> with the laws \<open>stringref_ok\<close>. The registration of the callback
  (\<open>llvmGetPassPluginInfo\<close>). The variables \<open>earliestInst\<close>, \<open>latestInst\<close> and \<open>foundStart\<close>, which
  are never read. The order of equal names in the sorted lists of the report, which \<open>llvm::sort\<close>
  leaves open, is that of a stable sort. The scripts under \<open>src/scripts\<close> start processes and
  rewrite text files; \<open>src/dataset\<close> and \<open>src/statistics\<close> are data.
\<close>

section \<open>The whole run\<close>

text \<open>
  C1: Nothing is tainted without a reason. Every value and pointer tainted at the end of \<open>run\<close>,
  every function recorded as returning taint and every recorded parameter is reached from an
  occurrence of the tracked constant in the named function by the ways taint travels in the
  modes that are on (\<open>flows\<close>): use of a tainted value, store and load, call, return, parameter.
\<close>

theorem run_flows:
  "(\<forall>V \<in> set (TaintedValues (run cfg m)). flows cfg m (Value V))
   \<and> (\<forall>P \<in> set (TaintedPointers (run cfg m)). flows cfg m (Pointer P))
   \<and> (\<forall>F \<in> set (FunctionsReturningTaint (run cfg m)). flows cfg m (Returns F))
   \<and> (\<forall>(F, i) \<in> ptr_params (run cfg m). flows cfg m (Param F i))"
  using soundD(1,3,4)[OF run_sound] sound_ptr_params[OF run_sound] by blast

lemma run_flows_witness:
  "flows ex_cfg ex_params (Value 24) \<and> flows ex_cfg ex_params (Pointer 21) \<and> flows ex_cfg ex_params (Param 1 0)"
proof -
  have "24 \<in> set (TaintedValues (run ex_cfg ex_params))" "21 \<in> set (TaintedPointers (run ex_cfg ex_params))"
    "ptr_param_known (run ex_cfg ex_params) 1 0" by code_simp+
  with run_flows[of ex_cfg ex_params] show ?thesis by auto
qed

text \<open>
  C2: No use of a tainted value is forgotten. At the end of \<open>run\<close> every instruction that uses
  a tainted value is tainted, or is a return of the value whose function is recorded as
  returning taint, or a store of the value to a global variable or through a pointer
  parameter that is recorded.
\<close>

theorem run_covers_uses:
  assumes "V \<in> set (TaintedValues (run cfg m))" "U \<in> set (users_of m V)" "is_inst m U"
  shows "U \<in> set (TaintedValues (run cfg m))
    \<or> (as_ret m U = Some V
        \<and> (func_of_inst m U \<noteq> nullptr \<longrightarrow> func_of_inst m U \<in> set (FunctionsReturningTaint (run cfg m))))
    \<or> (\<exists>p. as_store m U = Some (V, p) \<and>
         (as_global m (strip m p) \<noteq> None
          \<or> (getPointerParameterOrigin m p \<noteq> nullptr \<and> (func_of_inst m U \<noteq> nullptr \<longrightarrow>
              (func_of_inst m U, arg_no m (getPointerParameterOrigin m p)) \<in> ptr_params (run cfg m)))))"
  using run_covered[OF assms(1)] assms(2,3) unfolding covered_value_def covered_def by blast

lemma run_covers_uses_witness:
  "14 \<in> set (TaintedValues (run ex_cfg ex_returns))
   \<or> 1 \<in> set (FunctionsReturningTaint (run ex_cfg ex_returns))"
proof -
  have "13 \<in> set (TaintedValues (run ex_cfg ex_returns))" "14 \<in> set (users_of ex_returns 13)"
    "is_inst ex_returns 14" "as_store ex_returns 14 = None" "func_of_inst ex_returns 14 = 1"
    by code_simp+
  with run_covers_uses[of 13 ex_cfg ex_returns 14] show ?thesis by auto
qed

text \<open>
  C3: The forward propagation. At the end of phase 2, for every instruction that uses a tainted
  value: the function of a return of the value is recorded as returning taint; a store of the
  value to something other than a global variable is recorded when its pointer comes from a
  parameter, and otherwise taints the pointer and is tainted itself; every other instruction
  is tainted.
\<close>

theorem phase2_uses:
  assumes "V \<in> set (TaintedValues (phase2 cfg m))" "U \<in> set (users_of m V)" "is_inst m U"
  shows "if as_ret m U = Some V
     then func_of_inst m U \<noteq> nullptr \<longrightarrow>
            func_of_inst m U \<in> set (FunctionsReturningTaint (phase2 cfg m))
     else case as_store m U of
       Some (v, p) \<Rightarrow>
         if v \<noteq> V then U \<in> set (TaintedValues (phase2 cfg m))
         else as_global m (strip m p) = None \<longrightarrow>
           (if getPointerParameterOrigin m p \<noteq> nullptr
            then func_of_inst m U \<noteq> nullptr \<longrightarrow>
              (func_of_inst m U, arg_no m (getPointerParameterOrigin m p)) \<in> ptr_params (phase2 cfg m)
            else strip m p \<in> set (TaintedPointers (phase2 cfg m)) \<and> U \<in> set (TaintedValues (phase2 cfg m)))
     | None \<Rightarrow> U \<in> set (TaintedValues (phase2 cfg m))"
  using phase2_end(2)[OF assms(1)] assms(2,3)
  by (auto simp: closed_value_def closed_use_def store_closed_def split: option.split if_splits)

lemma phase2_uses_witness:
  "14 \<in> set (TaintedValues (phase2 ex_calls_cfg ex_calls))
   \<and> 12 \<in> set (TaintedPointers (phase2 ex_calls_cfg ex_calls))
   \<and> 1 \<in> set (FunctionsReturningTaint (phase2 ex_cfg ex_returns))"
proof -
  have "13 \<in> set (TaintedValues (phase2 ex_calls_cfg ex_calls))" "14 \<in> set (users_of ex_calls 13)"
    "is_inst ex_calls 14" "as_ret ex_calls 14 = None" "as_store ex_calls 14 = None" by code_simp+
  then have 14: "14 \<in> set (TaintedValues (phase2 ex_calls_cfg ex_calls))"
    using phase2_uses[of 13 ex_calls_cfg ex_calls 14] by simp
  have "16 \<in> set (users_of ex_calls 14)" "is_inst ex_calls 16" "as_ret ex_calls 16 = None"
    "as_store ex_calls 16 = Some (14, 12)" "as_global ex_calls (strip ex_calls 12) = None"
    "getPointerParameterOrigin ex_calls 12 = 0" "strip ex_calls 12 = 12" by code_simp+
  then have 12: "12 \<in> set (TaintedPointers (phase2 ex_calls_cfg ex_calls))"
    using phase2_uses[OF 14, of 16] by simp
  have "13 \<in> set (TaintedValues (phase2 ex_cfg ex_returns))" "14 \<in> set (users_of ex_returns 13)"
    "is_inst ex_returns 14" "as_ret ex_returns 14 = Some 13" "func_of_inst ex_returns 14 = 1" by code_simp+
  then show ?thesis using phase2_uses[of 13 ex_cfg ex_returns 14] 14 12 by simp
qed

text \<open>
  C5: Calls in the forward phase. When calls are followed, and a tainted value is first passed
  at position \<open>i\<close>, parameter \<open>i\<close> is tainted of the function called, or, for an indirect call
  that is followed, of every function it is resolved to, as far as they have a body and that
  many parameters.
\<close>

theorem phase2_calls:
  assumes "V \<in> set (TaintedValues (phase2 cfg m))" "C \<in> set (users_of m V)" "InterprocMode cfg"
    "as_call m C = Some (F, cv, args)" "first_arg V args = Some i"
    "if F \<noteq> nullptr then T = F else IndirectCallMode cfg
       \<and> T \<in> set (resolve_targets m (FunctionPointerTargets (phase2 cfg m)) cv)"
    "\<not> is_declaration m T" "i < length (args_of m T)"
  shows "args_of m T ! i \<in> set (TaintedValues (phase2 cfg m))"
proof -
  have "iop_of m C = Call F cv args" using assms(4) by (simp add: as_op_iff)
  then have "is_inst m C" by (auto simp: is_inst_def iop_of_def split: option.splits)
  then have "call_closed cfg m (phase2 cfg m) V C"
    using phase2_end(2)[OF assms(1)] assms(2) by (auto simp: closed_value_def closed_use_def)
  moreover have "T \<in> set (callees cfg m (phase2 cfg m) F cv)"
    using assms(6) by (auto simp: callees_def split: if_splits)
  ultimately show ?thesis using assms(3-5,7,8) unfolding call_closed_def by blast
qed

lemma phase2_calls_witness: "7 \<in> set (TaintedValues (phase2 ex_calls_cfg ex_calls))"
proof -
  have "14 \<in> set (TaintedValues (phase2 ex_calls_cfg ex_calls))" "17 \<in> set (users_of ex_calls 14)"
    "InterprocMode ex_calls_cfg" "as_call ex_calls 17 = Some (4, 4, [14, 14])"
    "first_arg 14 [14, 14] = Some 0" "\<not> is_declaration ex_calls 4" "args_of ex_calls 4 = [7, 8]"
    by code_simp+
  with phase2_calls[of 14 ex_calls_cfg ex_calls 17 4 4 "[14, 14]" 0 4] show ?thesis by simp
qed

text \<open>
  C7: Loads in the forward phase. At its end every load of a tainted pointer, direct or of a
  field, is tainted, except one that follows a kill store of the pointer in its block or stands
  before the instruction that tainted the pointer.
\<close>

theorem phase2_loads:
  assumes "Ptr \<in> set (TaintedPointers (phase2 cfg m))" "I \<in> set (all_insts m)" "reads_pointer m I Ptr"
  shows "I \<in> set (TaintedValues (phase2 cfg m))
    \<or> (\<exists>K \<in> set (KilledStores (phase2 cfg m)). store_pointer m K = Ptr
         \<and> block_of_inst m I = block_of_inst m K \<and> precedes m K I)
    \<or> isLoadBeforeTaintOrigin m I Ptr (PointerTaintOrigin (phase2 cfg m))"
  using phase2_end(3)[OF assms(1)] assms(2,3)
  by (auto simp: scanned_def killed_before_def after_kill_iff)

lemma phase2_loads_witness: "13 \<in> set (TaintedValues (phase2 ex_cfg ex_returns))"
proof -
  have "11 \<in> set (TaintedPointers (phase2 ex_cfg ex_returns))" "13 \<in> set (all_insts ex_returns)"
    "reads_pointer ex_returns 13 11" "KilledStores (phase2 ex_cfg ex_returns) = []"
    "\<not> isLoadBeforeTaintOrigin ex_returns 13 11 (PointerTaintOrigin (phase2 ex_cfg ex_returns))"
    by code_simp+
  with phase2_loads[of 11 ex_cfg ex_returns 13] show ?thesis by simp
qed

text \<open>
  C8: Loads after the upward phase. When it runs, every load of a tainted pointer is tainted at
  the end, except one before the instruction that tainted the pointer: kill stores no longer
  count, also for pointers tainted in the forward phase.
\<close>

theorem run_upward_loads:
  assumes "UpwardInterprocMode cfg"
    "FunctionsReturningTaint (phase2 cfg m) \<noteq> [] \<or> FunctionsTaintingPointerParams (phase2 cfg m) \<noteq> []"
    "Ptr \<in> set (TaintedPointers (run cfg m))" "I \<in> set (all_insts m)" "reads_pointer m I Ptr"
  shows "I \<in> set (TaintedValues (run cfg m)) \<or> isLoadBeforeTaintOrigin m I Ptr (PointerTaintOrigin (run cfg m))"
  using run_upward_end(3)[of cfg m Ptr] assms by (auto simp: upward_runs_def unkilled_scanned_def)

lemma run_upward_loads_witness: "23 \<in> set (TaintedValues (run ex_cfg ex_params))"
proof -
  have "UpwardInterprocMode ex_cfg" "FunctionsTaintingPointerParams (phase2 ex_cfg ex_params) \<noteq> []"
    "21 \<in> set (TaintedPointers (run ex_cfg ex_params))" "23 \<in> set (all_insts ex_params)"
    "reads_pointer ex_params 23 21"
    "\<not> isLoadBeforeTaintOrigin ex_params 23 21 (PointerTaintOrigin (run ex_cfg ex_params))"
    by code_simp+
  with run_upward_loads[of ex_cfg ex_params 21 23] show ?thesis by blast
qed

text \<open>
  C9: Callers of functions that return taint. When the upward phase runs, every call of a
  function recorded as returning taint is tainted at the end.
\<close>

theorem run_upward_calls:
  assumes "UpwardInterprocMode cfg"
    "FunctionsReturningTaint (phase2 cfg m) \<noteq> [] \<or> FunctionsTaintingPointerParams (phase2 cfg m) \<noteq> []"
    "F \<in> set (FunctionsReturningTaint (run cfg m))" "C \<in> set (all_insts m)"
    "as_call m C = Some (F, cv, args)"
  shows "C \<in> set (TaintedValues (run cfg m))"
  using run_upward_end(4)[of cfg m F] assms by (auto simp: upward_runs_def calls_tainted_def)

lemma run_upward_calls_witness: "21 \<in> set (TaintedValues (run ex_cfg ex_returns))"
proof -
  have "UpwardInterprocMode ex_cfg" "FunctionsReturningTaint (phase2 ex_cfg ex_returns) \<noteq> []"
    "1 \<in> set (FunctionsReturningTaint (run ex_cfg ex_returns))" "21 \<in> set (all_insts ex_returns)"
    "as_call ex_returns 21 = Some (1, 1, [])"
    by code_simp+
  with run_upward_calls[of ex_cfg ex_returns 1 21 1 "[]"] show ?thesis by blast
qed



text \<open>
  C11: The run ends with nothing left to do. \<open>run\<close> is a total function, so all its loops end,
  on every module and configuration; at its end the worklist is empty, and the last line
  printed says that the analysis is complete.
\<close>

theorem run_finishes:
  "Worklist (run cfg m) = []
   \<and> last (Log (run cfg m)) = Ev REPORT nullptr ''=== Taint Analysis Complete ===''"
  using run_worklist[of cfg m] by (simp add: run_def report_last)

text \<open>
  C13: Levels are stable. A value tainted by the search keeps the level it was given there
  until the end of the run, whatever else reaches it.
\<close>

theorem seed_levels_stable:
  assumes "V \<in> set (TaintedValues (seed cfg m (start cfg m)))"
    "map_of (ValueLevel (seed cfg m (start cfg m))) V = Some l"
  shows "map_of (ValueLevel (run cfg m)) V = Some l"
  by (rule grows_level[OF seed_to_run assms])

lemma seed_levels_stable_witness: "map_of (ValueLevel (run ex_calls_cfg ex_calls)) 5 = Some (-1)"
  by (rule seed_levels_stable) code_simp+

text \<open>
  C15: What the code dereferences and casts without a test. \<open>PointerTaintOrigin\<close> has an entry for
  exactly the tainted pointers, each an instruction of the module, and every kill store is
  a store, to a pointer that is tainted.
\<close>

theorem run_sites_valid:
  "set (TaintedPointers (run cfg m)) = dom (map_of (PointerTaintOrigin (run cfg m)))
   \<and> (\<forall>p Org. (p, Org) \<in> set (PointerTaintOrigin (run cfg m)) \<longrightarrow> is_inst m Org)
   \<and> (\<forall>K \<in> set (KilledStores (run cfg m)). \<exists>v q. as_store m K = Some (v, q)
        \<and> strip m q \<in> set (TaintedPointers (run cfg m)))"
  using origins.I_run[OF origins_init, of cfg m] sites.I_run[OF sites_init, of m cfg]
  unfolding origins_known_def sites_ok_def by blast

lemma run_sites_valid_witness:
  "is_inst ex_params 22 \<and> 21 \<in> set (TaintedPointers (run ex_cfg ex_params))"
proof -
  have "map_of (PointerTaintOrigin (run ex_cfg ex_params)) 21 = Some 22" by code_simp
  then have "(21, 22) \<in> set (PointerTaintOrigin (run ex_cfg ex_params))"
    "21 \<in> dom (map_of (PointerTaintOrigin (run ex_cfg ex_params)))"
    by (simp_all add: map_of_SomeD domI)
  then show ?thesis using run_sites_valid[of ex_cfg ex_params] by blast
qed

text \<open>
  C17: The source has level 0. The instruction of the occurrence asked for is tainted at the
  end of the run and has level 0, so the largest level is not negative. (For fewer than \<open>2 ^ 32\<close> occurrences, the range of the counter.)
\<close>

theorem source_level_zero:
  assumes "length (occurrences cfg m) < 2 ^ 32" "OccurrenceIndex cfg \<noteq> 0"
    "unat (OccurrenceIndex cfg) \<le> length (occurrences cfg m)"
    "occurrences cfg m ! (unat (OccurrenceIndex cfg) - 1) = (I, CI)"
  shows "I \<in> set (TaintedValues (run cfg m)) \<and> map_of (ValueLevel (run cfg m)) I = Some 0
     \<and> 0 \<le> max_level (run cfg m)"
proof -
  let ?q = "cfg\<lparr>Verbose := False\<rparr>"
  have "TaintedValues (start ?q m) = []" using start_no_taint[of ?q m] by (simp add: no_taint_def)
  moreover have "0 < unat (OccurrenceIndex cfg)" using assms(2) by (simp add: unat_gt_0)
  ultimately have "seed ?q m (start ?q m) = seed_source ?q m I CI (start ?q m)"
    using occ_nth[of 0 ?q "occurrences cfg m" m "start ?q m"] assms
    by (simp add: seed_occ occurrences_switch Let_def)
  then have s: "I \<in> set (TaintedValues (seed ?q m (start ?q m)))"
    "map_of (ValueLevel (seed ?q m (start ?q m))) I = Some 0"
    by (simp_all add: seed_source_level)
  have "I \<in> set (TaintedValues (run ?q m))" "map_of (ValueLevel (run ?q m)) I = Some 0"
    using growsD(1)[OF seed_to_run] s(1) grows_level[OF seed_to_run s] by blast+
  moreover have "alike True (run ?q m) (run cfg m)"
    by (rule alike_run) (simp add: switched_def)
  ultimately have "I \<in> set (TaintedValues (run cfg m))" "map_of (ValueLevel (run cfg m)) I = Some 0"
    by (simp_all add: alike_fields)
  then show ?thesis using max_level_upper[of I 0 "run cfg m"] by (simp add: map_of_SomeD)
qed

lemma source_level_zero_witness:
  "12 \<in> set (TaintedValues (run ex_cfg ex_returns)) \<and> map_of (ValueLevel (run ex_cfg ex_returns)) 12 = Some 0
   \<and> 0 \<le> max_level (run ex_cfg ex_returns)"
proof -
  have "occurrences ex_cfg ex_returns = [(12, 3)]" "OccurrenceIndex ex_cfg = 1" by code_simp+
  then show ?thesis by (intro source_level_zero[where CI = 3]) simp_all
qed

text \<open>
  C21: The modes keep taint where they say. With the interprocedural modes off the analysis
  stays in the named function: every tainted value is an instruction of it, every tainted
  pointer is the destination, without casts, of a store in it that is neither to a global
  variable nor through a parameter, every kill store stands in it, and it is the only function
  recorded as returning taint or as writing through a parameter. The module is one where the
  users of the function's values, and the loads and stores of the destinations of its stores,
  stand in the function too.
\<close>

theorem run_stays_in_function:
  assumes "\<not> InterprocMode cfg" "\<not> UpwardInterprocMode cfg"
    "\<And>I CI. source cfg m I CI \<Longrightarrow> func_of_inst m I = F"
    "\<And>V U. func_of_inst m V = F \<Longrightarrow> U \<in> set (users_of m V) \<Longrightarrow> is_inst m U \<Longrightarrow> func_of_inst m U = F"
    "\<And>S v p I. func_of_inst m S = F \<Longrightarrow> as_store m S = Some (v, p) \<Longrightarrow> local_store m p \<Longrightarrow>
       I \<in> set (all_insts m) \<Longrightarrow> reads_pointer m I (strip m p) \<Longrightarrow> func_of_inst m I = F"
    "\<And>S v p K w q. func_of_inst m S = F \<Longrightarrow> as_store m S = Some (v, p) \<Longrightarrow> local_store m p \<Longrightarrow>
       as_store m K = Some (w, q) \<Longrightarrow> strip m q = strip m p \<Longrightarrow> func_of_inst m K = F"
  shows "(\<forall>V \<in> set (TaintedValues (run cfg m)). is_inst m V \<and> func_of_inst m V = F)
     \<and> (\<forall>P \<in> set (TaintedPointers (run cfg m)). \<exists>S v p. func_of_inst m S = F
          \<and> as_store m S = Some (v, p) \<and> local_store m p \<and> P = strip m p)
     \<and> (\<forall>K \<in> set (KilledStores (run cfg m)). func_of_inst m K = F)
     \<and> set (FunctionsReturningTaint (run cfg m)) \<subseteq> {F} \<and> fst ` ptr_params (run cfg m) \<subseteq> {F}"
proof -
  have w: "stays_in m F f" if "flows cfg m f" for f
    by (rule flows_stay[OF that assms(1-5)])
  have vals: "is_inst m V \<and> func_of_inst m V = F" if "V \<in> set (TaintedValues (run cfg m))" for V
    using w[OF soundD(1)[OF run_sound that]] flows_value_inst[OF soundD(1)[OF run_sound that] assms(1)]
    by (simp add: stays_in_def)
  have pointers: "\<exists>S v p. func_of_inst m S = F \<and> as_store m S = Some (v, p) \<and> local_store m p \<and> P = strip m p"
    if "P \<in> set (TaintedPointers (run cfg m))" for P
    using w[OF soundD(3)[OF run_sound that]] by (simp add: stays_in_def)
  have kills: "func_of_inst m K = F" if "K \<in> set (KilledStores (run cfg m))" for K
  proof -
    obtain x q where "as_store m K = Some (x, q)" "strip m q \<in> set (TaintedPointers (run cfg m))"
      using sites.I_run[OF sites_init, of m cfg] \<open>K \<in> _\<close> unfolding sites_ok_def by blast
    with pointers[of "strip m q"] assms(6) show ?thesis by blast
  qed
  have "G = F" if "G \<in> set (FunctionsReturningTaint (run cfg m))" for G
    using w[OF soundD(4)[OF run_sound that]] by (simp add: stays_in_def)
  moreover have "G = F" if "(G, i) \<in> ptr_params (run cfg m)" for G i
    using w[OF sound_ptr_params[OF run_sound that]] by (simp add: stays_in_def)
  ultimately show ?thesis using vals pointers kills by fastforce
qed

lemma run_stays_in_function_witness:
  "13 \<in> set (TaintedValues (run ex_local_cfg ex_returns)) \<and> func_of_inst ex_returns 13 = 1
   \<and> 11 \<in> set (TaintedPointers (run ex_local_cfg ex_returns))
   \<and> (\<exists>S v p. func_of_inst ex_returns S = 1 \<and> as_store ex_returns S = Some (v, p) \<and> 11 = strip ex_returns p)"
proof -
  let ?m = ex_returns
  note lookup = inst_of_def kind_of_def vinfo_of_def ex_returns_def ex_val_def ex_inst_def no_vinfo_def
  have insts: "func_of_inst ?m V = (if V \<in> {11, 12, 13, 14} then 1 else if V \<in> {21, 22} then 2 else 0)" for V
    by (simp add: func_of_inst_def lookup)
  have stores: "as_store ?m S = (if S = 12 then Some (3, 11) else None)" for S
    by (simp add: as_store_def iop_of_def lookup)
  have facts: "users_of ?m 11 = [12, 13]" "users_of ?m 12 = []" "users_of ?m 13 = [14]" "users_of ?m 14 = []"
    "strip ?m 11 = 11" "filter (\<lambda>I. reads_pointer ?m I 11) (all_insts ?m) = [13]"
    "filter (\<lambda>f. fname f = FunctionName ex_local_cfg) (funcs ?m) = [hd (funcs ?m)]"
    "func_insts (hd (funcs ?m)) = [11, 12, 13, 14]" by code_simp+
  have run: "13 \<in> set (TaintedValues (run ex_local_cfg ?m))" "11 \<in> set (TaintedPointers (run ex_local_cfg ?m))"
    by code_simp+
  have "(\<forall>V \<in> set (TaintedValues (run ex_local_cfg ?m)). is_inst ?m V \<and> func_of_inst ?m V = 1)
     \<and> (\<forall>P \<in> set (TaintedPointers (run ex_local_cfg ?m)). \<exists>S v p. func_of_inst ?m S = 1
          \<and> as_store ?m S = Some (v, p) \<and> local_store ?m p \<and> P = strip ?m p)
     \<and> (\<forall>K \<in> set (KilledStores (run ex_local_cfg ?m)). func_of_inst ?m K = 1)
     \<and> set (FunctionsReturningTaint (run ex_local_cfg ?m)) \<subseteq> {1} \<and> fst ` ptr_params (run ex_local_cfg ?m) \<subseteq> {1}"
  proof (rule run_stays_in_function)
    show "\<not> InterprocMode ex_local_cfg" "\<not> UpwardInterprocMode ex_local_cfg"
      by (simp_all add: ex_local_cfg_def)
    fix I CI assume "source ex_local_cfg ?m I CI"
    then obtain f where "f \<in> set (filter (\<lambda>f. fname f = FunctionName ex_local_cfg) (funcs ?m))"
        "I \<in> set (func_insts f)"
      by (auto simp: source_def)
    then show "func_of_inst ?m I = 1" unfolding facts by (auto simp: facts insts)
  next
    fix V U assume "func_of_inst ?m V = 1" "U \<in> set (users_of ?m V)"
    then have "V \<in> {11, 12, 13, 14}" "U \<in> set (users_of ?m V)" by (simp_all only: insts split: if_splits)
    then have "U \<in> {12, 13, 14}" by (auto simp: facts)
    then show "func_of_inst ?m U = 1" by (auto simp: insts)
  next
    fix S v p I assume "as_store ?m S = Some (v, p)" and I: "I \<in> set (all_insts ?m)" "reads_pointer ?m I (strip ?m p)"
    then have "p = 11" by (simp add: stores split: if_splits)
    with I have "I \<in> set (filter (\<lambda>I. reads_pointer ?m I 11) (all_insts ?m))" by (simp add: facts(5))
    then show "func_of_inst ?m I = 1" unfolding facts by (simp add: insts)
  next
    fix K w q assume "as_store ?m K = Some (w, q)"
    then show "func_of_inst ?m K = 1" by (simp add: stores insts split: if_splits)
  qed
  with run show ?thesis by blast
qed

text \<open>
  C30: The functions an indirect call is resolved to were stored where it looks for them. Such
  a function is stored by the module to a pointer, taken as written or without casts, that is
  the pointer the callee is loaded from, that pointer without casts, or a \<open>getelementptr\<close>
  with the same pattern; and indirect calls are followed.
\<close>

theorem resolved_was_stored:
  assumes "T \<in> set (resolve_targets m (FunctionPointerTargets (run cfg m)) c)"
  shows "IndirectCallMode cfg \<and> is_function m T
     \<and> (\<exists>S q p k. S \<in> set (all_insts m) \<and> as_store m S = Some (T, q) \<and> as_load m c = Some p
          \<and> (k = q \<or> k = strip m q) \<and> (k = p \<or> k = strip m p \<or> sameGEPPattern m p k))"
  using resolved_stored assms unfolding soundD(6)[OF run_sound] .

lemma resolved_was_stored_witness: "is_function ex_indirect 4"
proof -
  have "4 \<in> set (resolve_targets ex_indirect (FunctionPointerTargets (run ex_indirect_cfg ex_indirect)) 15)"
    by code_simp
  from resolved_was_stored[OF this] show ?thesis by blast
qed

end
